theory Spec2Isabelle
  imports Main "HOL-Library.AList"
begin


section \<open>Asynchronous inference notebook\<close>

subsection \<open>The remote world and the notebook state\<close>

text \<open>
  The notebook is a sequence of cells that talk to the world outside it: remote services
  through SDK calls, the shell, the local files. Every such call, every \<open>print\<close> and every
  \<open>time.sleep\<close> is an event, recorded in the order in which the notebook performs it. Sleeps are counted in milliseconds: \<open>time.sleep(2)\<close> is
  \<open>Sleep 2000\<close> and \<open>time.sleep(0.5)\<close> is \<open>Sleep 500\<close>.
\<close>

datatype exn =
    ClientError string    \<comment> \<open>botocore's ClientError, with \<open>e.response["Error"]["Code"]\<close>\<close>
  | Exception string      \<comment> \<open>any exception that is not a ClientError, with its class name\<close>

datatype call =
    Shell string                        \<comment> \<open>a \<open>!command\<close> line\<close>
  | BotoSession                         \<comment> \<open>\<open>boto3.session.Session()\<close> and its \<open>region_name\<close>\<close>
  | SagemakerSession                    \<comment> \<open>\<open>sagemaker.session.Session()\<close>\<close>
  | GetExecutionRole
  | DefaultBucket
  | OpenFile string                     \<comment> \<open>\<open>open(path, "rb")\<close>\<close>
  | UploadFileobj string string string  \<comment> \<open>local file, bucket, key\<close>
  | ImageUrisRetrieve string string string
  | DeployEndpoint string string        \<comment> \<open>model name, endpoint name\<close>
  | AutoscalingClient
  | RegisterScalableTarget string
  | PutScalingPolicy string string      \<comment> \<open>resource id, endpoint name\<close>
  | UploadData string string string     \<comment> \<open>local file, bucket, key prefix\<close>
  | PredictAsync string
  | ReadS3File string string            \<comment> \<open>bucket, key prefix\<close>
  | DeregisterScalableTarget string
  | DeleteEndpoint string

datatype event = Call call | Print string | Sleep nat

record url =
  netloc :: string
  path :: string

text \<open>
  The world outside the notebook. \<open>respond w n c\<close> is what call \<open>c\<close> returns, or the
  exception it raises, when \<open>n\<close> calls have been made before it: an output object appears
  after a while, and every invocation gets a fresh output location, so the answer depends on
  the moment of the call. \<open>urlparse\<close> is the library function of that name, which raises on
  a malformed location, and \<open>now n\<close> is what \<open>datetime.now().strftime("%Y-%m-%d-%H-%M-%S")\<close>
  gives when the notebook has read the clock \<open>n\<close> times before.
\<close>

record env =
  urlparse :: "string \<Rightarrow> exn + url"
  respond :: "nat \<Rightarrow> call \<Rightarrow> exn + string"
  now :: "nat \<Rightarrow> string"

text \<open>
  The notebook state: the events so far, the number of calls so far, the number of readings
  of the clock so far, and the global variables of the notebook that a later cell reads. A variable that is not assigned yet holds the empty
  string; the cells run top to bottom, so each is assigned before it is read.
\<close>

record nb =
  log :: "event list"
  calls :: nat
  clock :: nat
  region :: string
  sm_role :: string
  s3_bucket :: string
  model_url :: string
  container :: string
  model_name :: string
  endpoint_name :: string
  resource_id :: string
  input_1_s3_location :: string
  input_file :: string
  input_file_s3_location :: string
  output_location :: string
  output_val :: string
  inferences :: "(string \<times> string) list"

definition nb0 :: nb where
  "nb0 = \<lparr>log = [], calls = 0, clock = 0, region = [], sm_role = [], s3_bucket = [], model_url = [],
          container = [], model_name = [], endpoint_name = [], resource_id = [],
          input_1_s3_location = [], input_file = [], input_file_s3_location = [],
          output_location = [], output_val = [], inferences = []\<rparr>"

definition emit :: "event list \<Rightarrow> nb \<Rightarrow> nb" where
  "emit es s = s\<lparr>log := log s @ es\<rparr>"

definition called :: "call \<Rightarrow> nb \<Rightarrow> nb" where
  "called c s = s\<lparr>log := log s @ [Call c], calls := Suc (calls s)\<rparr>"

definition remote :: "env \<Rightarrow> call \<Rightarrow> nb \<Rightarrow> (exn + string) \<times> nb" where
  "remote w c s = (respond w (calls s) c, called c s)"

subsection \<open>\<open>get_output\<close>: polling the output location\<close>

text \<open>
  \<^verbatim>\<open>
  def get_output(output_location):
      output_url = urllib.parse.urlparse(output_location)
      bucket = output_url.netloc
      key = output_url.path[1:]
      while True:
          try:
              return sm_session.read_s3_file(bucket=output_url.netloc, key_prefix=output_url.path[1:])
          except ClientError as e:
              if e.response["Error"]["Code"] == "NoSuchKey":
                  print("waiting for output...")
                  time.sleep(2)
                  continue
              raise
  \<close>
  The loop has no bound, so it is a partial function: \<open>None\<close> is the run that never returns.
  A run that returns gives the value or the exception that left the function, and the state.
\<close>

definition read_call :: "url \<Rightarrow> call" where
  "read_call output_url = ReadS3File (netloc output_url) (drop 1 (path output_url))"

definition wait_round :: "event list" where
  "wait_round = [Print ''waiting for output...'', Sleep 2000]"

partial_function (option) get_output_loop :: "env \<Rightarrow> url \<Rightarrow> nb \<Rightarrow> ((exn + string) \<times> nb) option" where
  "get_output_loop w output_url s =
     (case remote w (read_call output_url) s of
        (Inr body, s') \<Rightarrow> Some (Inr body, s')
      | (Inl e, s') \<Rightarrow>
          (case e of
             ClientError code \<Rightarrow>
               if code = ''NoSuchKey''
               then get_output_loop w output_url (emit wait_round s')
               else Some (Inl e, s')
           | Exception c \<Rightarrow> Some (Inl e, s')))"

declare get_output_loop.simps [code]

definition get_output :: "env \<Rightarrow> string \<Rightarrow> nb \<Rightarrow> ((exn + string) \<times> nb) option" where
  "get_output w location s =
     (case urlparse w location of
        Inl e \<Rightarrow> Some (Inl e, s)
      | Inr output_url \<Rightarrow> get_output_loop w output_url s)"

text \<open>The state after \<open>n\<close> rounds of "read, not there yet, print, sleep".\<close>

fun waited :: "nat \<Rightarrow> url \<Rightarrow> nb \<Rightarrow> nb" where
  "waited 0 u s = s"
| "waited (Suc n) u s = waited n u (emit wait_round (called (read_call u) s))"

definition no_such_key :: "exn + string" where
  "no_such_key = Inl (ClientError ''NoSuchKey'')"

subsection \<open>The cells of the notebook\<close>

text \<open>
  A statement either finishes (\<open>None\<close>) or raises (\<open>Some e\<close>), and leaves a state. A cell
  that calls \<open>get_output\<close> may also never return. An exception leaves the cell and stops the
  run of the notebook; nothing in the notebook but \<open>get_output\<close> catches one.
\<close>

type_synonym stmt = "nb \<Rightarrow> exn option \<times> nb"
type_synonym cell = "nb \<Rightarrow> (exn option \<times> nb) option"

definition bind_call :: "(exn + string) \<times> nb \<Rightarrow> (string \<Rightarrow> stmt) \<Rightarrow> exn option \<times> nb" where
  "bind_call r k = (case r of (Inl e, s) \<Rightarrow> (Some e, s) | (Inr v, s) \<Rightarrow> k v s)"

definition seq :: "stmt \<Rightarrow> stmt \<Rightarrow> stmt" where
  "seq a b s = (case a s of (Some e, s') \<Rightarrow> (Some e, s') | (None, s') \<Rightarrow> b s')"

text \<open>A shell line (\<open>!command\<close>) runs the command; its failure raises nothing in the notebook.\<close>

definition shell :: "string \<Rightarrow> stmt" where
  "shell cmd s = (None, called (Shell cmd) s)"

definition bucket_prefix :: string where
  "bucket_prefix = ''DEMO-async-inference''"

text \<open>\<open>resource_name = "AsyncInferenceDemo-{}-{}"\<close>, and its \<open>format\<close> with two arguments.\<close>

definition resource_name_format :: "string \<Rightarrow> string \<Rightarrow> string" where
  "resource_name_format a b = ''AsyncInferenceDemo-'' @ a @ ''-'' @ b"

text \<open>
  \<^verbatim>\<open>
  !python -m pip install --upgrade pip --quiet
  !pip install -U awscli --quiet
  !pip install sagemaker --upgrade
  \<close>
\<close>

definition cell_install :: stmt where
  "cell_install =
     seq (shell ''python -m pip install --upgrade pip --quiet'')
    (seq (shell ''pip install -U awscli --quiet'')
         (shell ''pip install sagemaker --upgrade''))"

text \<open>
  \<^verbatim>\<open>
  boto_session = boto3.session.Session()
  sm_session = sagemaker.session.Session()
  region = boto_session.region_name
  \<close>
\<close>

definition cell_sessions :: "env \<Rightarrow> stmt" where
  "cell_sessions w s =
     bind_call (remote w BotoSession s) (\<lambda>r s.
     bind_call (remote w SagemakerSession s) (\<lambda>_ s.
       (None, s\<lparr>region := r\<rparr>)))"

text \<open>
  \<^verbatim>\<open>
  !aws s3 cp --recursive s3://sagemaker-sample-files/models/async-inference/input-files/ input/
  !aws s3 cp s3://sagemaker-sample-files/models/async-inference/demo-xgboost-model.tar.gz model/
  \<close>
\<close>

definition cell_download :: stmt where
  "cell_download =
     seq (shell ''aws s3 cp --recursive s3://sagemaker-sample-files/models/async-inference/input-files/ input/'')
         (shell ''aws s3 cp s3://sagemaker-sample-files/models/async-inference/demo-xgboost-model.tar.gz model/'')"

text \<open>
  \<^verbatim>\<open>
  sm_role = sagemaker.get_execution_role()
  print(f"Using Role: {sm_role}")
  s3_bucket = sm_session.default_bucket()
  print(f"Will use bucket '{s3_bucket}' for storing all resources related to this notebook")
  \<close>
\<close>

definition cell_role_bucket :: "env \<Rightarrow> stmt" where
  "cell_role_bucket w s =
     bind_call (remote w GetExecutionRole s) (\<lambda>r s.
       (let s = emit [Print (''Using Role: '' @ r)] (s\<lparr>sm_role := r\<rparr>) in
        bind_call (remote w DefaultBucket s) (\<lambda>b s.
          (None, emit [Print (''Will use bucket '' @ [CHR 39] @ b @ [CHR 39] @
                              '' for storing all resources related to this notebook'')]
                   (s\<lparr>s3_bucket := b\<rparr>)))))"

text \<open>
  \<^verbatim>\<open>
  model_s3_key = f"{bucket_prefix}/demo-xgboost-model.tar.gz"
  model_url = f"s3://{s3_bucket}/{model_s3_key}"
  print(f"Uploading Model to {model_url}")
  with open("model/demo-xgboost-model.tar.gz", "rb") as model_file:
      boto_session.resource("s3").Bucket(s3_bucket).Object(model_s3_key).upload_fileobj(model_file)
  \<close>
\<close>

definition cell_upload_model :: "env \<Rightarrow> stmt" where
  "cell_upload_model w s =
     (let model_s3_key = bucket_prefix @ ''/demo-xgboost-model.tar.gz'';
          s = s\<lparr>model_url := ''s3://'' @ s3_bucket s @ ''/'' @ model_s3_key\<rparr>;
          s = emit [Print (''Uploading Model to '' @ model_url s)] s
      in bind_call (remote w (OpenFile ''model/demo-xgboost-model.tar.gz'') s) (\<lambda>_ s.
         bind_call (remote w (UploadFileobj ''model/demo-xgboost-model.tar.gz'' (s3_bucket s) model_s3_key) s)
           (\<lambda>_ s. (None, s))))"

text \<open>
  \<^verbatim>\<open>
  container = image_uris.retrieve(region=region, framework="xgboost", version="0.90-1")
  \<close>
\<close>

definition cell_container :: "env \<Rightarrow> stmt" where
  "cell_container w s =
     bind_call (remote w (ImageUrisRetrieve (region s) ''xgboost'' ''0.90-1'') s)
       (\<lambda>c s. (None, s\<lparr>container := c\<rparr>))"

text \<open>
  \<^verbatim>\<open>
  model_name = resource_name.format("Model", datetime.now().strftime("%Y-%m-%d-%H-%M-%S"))
  model_predictor = Model(name=model_name, image_uri=container, model_data=model_url,
                          role=sm_role, predictor_cls=Predictor)
  \<close>
  The \<open>Model\<close> object is local; nothing is created remotely before \<open>deploy\<close>. So is the
  \<open>AsyncInferenceConfig\<close> object of the next cell, which leaves no trace here.
\<close>

definition cell_model :: "env \<Rightarrow> stmt" where
  "cell_model w s =
     (None, s\<lparr>model_name := resource_name_format ''Model'' (now w (clock s)),
               clock := Suc (clock s)\<rparr>)"

text \<open>
  \<^verbatim>\<open>
  endpoint_name = resource_name.format("Endpoint", datetime.now().strftime("%Y-%m-%d-%H-%M-%S"))
  async_predictor = model_predictor.deploy(
      async_inference_config=async_config, instance_type="ml.m5.xlarge",
      initial_instance_count=1, endpoint_name=endpoint_name)
  \<close>
  \<open>deploy\<close> creates the model, the endpoint configuration and the endpoint.
\<close>

definition cell_deploy :: "env \<Rightarrow> stmt" where
  "cell_deploy w s =
     (let s = s\<lparr>endpoint_name := resource_name_format ''Endpoint'' (now w (clock s)),
                clock := Suc (clock s)\<rparr>
      in bind_call (remote w (DeployEndpoint (model_name s) (endpoint_name s)) s)
           (\<lambda>_ s. (None, s)))"

text \<open>
  \<^verbatim>\<open>
  client = boto3.client("application-autoscaling")
  resource_id = "endpoint/" + endpoint_name + "/variant/" + "AllTraffic"
  response = client.register_scalable_target(ServiceNamespace="sagemaker",
      ResourceId=resource_id, ScalableDimension=..., MinCapacity=0, MaxCapacity=5)
  response = client.put_scaling_policy(PolicyName="Invocations-ScalingPolicy",
      ServiceNamespace="sagemaker", ResourceId=resource_id, ...
          "Dimensions": [{"Name": "EndpointName", "Value": endpoint_name}], ...)
  \<close>
\<close>

definition cell_autoscaling :: "env \<Rightarrow> stmt" where
  "cell_autoscaling w s =
     bind_call (remote w AutoscalingClient s) (\<lambda>_ s.
       (let s = s\<lparr>resource_id := ''endpoint/'' @ endpoint_name s @ ''/variant/'' @ ''AllTraffic''\<rparr>
        in bind_call (remote w (RegisterScalableTarget (resource_id s)) s) (\<lambda>_ s.
           bind_call (remote w (PutScalingPolicy (resource_id s) (endpoint_name s)) s) (\<lambda>_ s.
             (None, s)))))"

text \<open>
  \<^verbatim>\<open>
  def upload_file(input_location):
      prefix = f"{bucket_prefix}/input"
      return sm_session.upload_data(input_location, bucket=sm_session.default_bucket(),
                                    key_prefix=prefix, extra_args={"ContentType": "text/libsvm"})
  \<close>
\<close>

definition upload_file :: "env \<Rightarrow> string \<Rightarrow> nb \<Rightarrow> (exn + string) \<times> nb" where
  "upload_file w input_location s =
     (let prefix = bucket_prefix @ ''/input'' in
      case remote w DefaultBucket s of
        (Inl e, s) \<Rightarrow> (Inl e, s)
      | (Inr b, s) \<Rightarrow> remote w (UploadData input_location b prefix) s)"

text \<open>
  \<^verbatim>\<open>
  input_1_location = "input/test_point_0.libsvm"
  input_1_s3_location = upload_file(input_1_location)
  \<close>
\<close>

definition cell_upload_input :: "env \<Rightarrow> stmt" where
  "cell_upload_input w s =
     bind_call (upload_file w ''input/test_point_0.libsvm'' s)
       (\<lambda>l s. (None, s\<lparr>input_1_s3_location := l\<rparr>))"

text \<open>
  \<^verbatim>\<open>
  async_response = async_predictor.predict_async(input_path=input_1_s3_location)
  output_location = async_response.output_path
  \<close>
\<close>

definition cell_predict :: "env \<Rightarrow> stmt" where
  "cell_predict w s =
     bind_call (remote w (PredictAsync (input_1_s3_location s)) s)
       (\<lambda>out s. (None, s\<lparr>output_location := out\<rparr>))"

text \<open>
  \<^verbatim>\<open>
  output = get_output(output_location)
  print(f"Output: {output}")
  \<close>
\<close>

definition cell_output :: "env \<Rightarrow> cell" where
  "cell_output w s =
     (case get_output w (output_location s) s of
        None \<Rightarrow> None
      | Some (Inl e, s) \<Rightarrow> Some (Some e, s)
      | Some (Inr out, s) \<Rightarrow> Some (None, emit [Print (''Output: '' @ out)] (s\<lparr>output_val := out\<rparr>)))"

text \<open>\<open>str(i)\<close> for a natural number, as the f-string formats the loop index.\<close>

fun str_nat :: "nat \<Rightarrow> string" where
  "str_nat n =
     (if n < 10 then [''0123456789'' ! n]
      else str_nat (n div 10) @ [''0123456789'' ! (n mod 10)])"

declare str_nat.simps [simp del]

text \<open>
  \<^verbatim>\<open>
  inferences = []
  for i in range(25):
      input_file = f"input/test_point_{i}.libsvm"
      input_file_s3_location = upload_file(input_file)
      print(f"Invoking Endpoint with {input_file}")
      async_response = async_predictor.predict_async(input_path=input_file_s3_location)
      output_location = async_response.output_path
      print(output_location)
      inferences += [(input_file, output_location)]
      time.sleep(0.5)

  for input_file, output_location in inferences:
      output = get_output(output_location)
      print(f"Input File: {input_file}, Output: {output}")
  \<close>
\<close>

definition input_path :: "nat \<Rightarrow> string" where
  "input_path i = ''input/test_point_'' @ str_nat i @ ''.libsvm''"

definition invoke_one :: "env \<Rightarrow> nat \<Rightarrow> stmt" where
  "invoke_one w i s =
     (let s = s\<lparr>input_file := input_path i\<rparr> in
      bind_call (upload_file w (input_file s) s) (\<lambda>l s.
        (let s = s\<lparr>input_file_s3_location := l\<rparr>;
             s = emit [Print (''Invoking Endpoint with '' @ input_file s)] s
         in bind_call (remote w (PredictAsync (input_file_s3_location s)) s) (\<lambda>out s.
              (let s = s\<lparr>output_location := out\<rparr>;
                   s = emit [Print (output_location s)] s;
                   s = s\<lparr>inferences := inferences s @ [(input_file s, output_location s)]\<rparr>
               in (None, emit [Sleep 500] s))))))"

fun for_each :: "('a \<Rightarrow> stmt) \<Rightarrow> 'a list \<Rightarrow> stmt" where
  "for_each body [] s = (None, s)"
| "for_each body (x # xs) s =
     (case body x s of
        (Some e, s') \<Rightarrow> (Some e, s')
      | (None, s') \<Rightarrow> for_each body xs s')"

definition show_one :: "env \<Rightarrow> string \<times> string \<Rightarrow> cell" where
  "show_one w p s =
     (let s = s\<lparr>input_file := fst p, output_location := snd p\<rparr> in
      case get_output w (output_location s) s of
        None \<Rightarrow> None
      | Some (Inl e, s) \<Rightarrow> Some (Some e, s)
      | Some (Inr out, s) \<Rightarrow>
          Some (None, emit [Print (''Input File: '' @ input_file s @ '', Output: '' @ out)]
                        (s\<lparr>output_val := out\<rparr>)))"

fun for_each_cell :: "('a \<Rightarrow> cell) \<Rightarrow> 'a list \<Rightarrow> cell" where
  "for_each_cell body [] s = Some (None, s)"
| "for_each_cell body (x # xs) s =
     (case body x s of
        None \<Rightarrow> None
      | Some (Some e, s') \<Rightarrow> Some (Some e, s')
      | Some (None, s') \<Rightarrow> for_each_cell body xs s')"

definition invoke_loop :: "env \<Rightarrow> stmt" where
  "invoke_loop w s = for_each (invoke_one w) [0..<25] (s\<lparr>inferences := []\<rparr>)"

definition result_loop :: "env \<Rightarrow> cell" where
  "result_loop w s = for_each_cell (show_one w) (inferences s) s"

definition cell_multiple :: "env \<Rightarrow> cell" where
  "cell_multiple w s =
     (case invoke_loop w s of
        (Some e, s') \<Rightarrow> Some (Some e, s')
      | (None, s') \<Rightarrow> result_loop w s')"

text \<open>
  \<^verbatim>\<open>
  response = client.deregister_scalable_target(ServiceNamespace="sagemaker",
      ResourceId=resource_id, ScalableDimension="sagemaker:variant:DesiredInstanceCount")
  \<close>
\<close>

definition cell_deregister :: "env \<Rightarrow> stmt" where
  "cell_deregister w s =
     bind_call (remote w (DeregisterScalableTarget (resource_id s)) s) (\<lambda>_ s. (None, s))"

text \<open>
  \<^verbatim>\<open>
  # Delete the SageMaker endpoint
  async_predictor.delete_endpoint()
  \<close>
  The predictor is the one \<open>deploy\<close> returned, so the endpoint is \<open>endpoint_name\<close>.
\<close>

definition cell_delete :: "env \<Rightarrow> stmt" where
  "cell_delete w s =
     bind_call (remote w (DeleteEndpoint (endpoint_name s)) s) (\<lambda>_ s. (None, s))"

text \<open>The notebook: its code cells from top to bottom, run until one raises.\<close>

definition lift :: "stmt \<Rightarrow> cell" where
  "lift a s = Some (a s)"

fun run_cells :: "cell list \<Rightarrow> cell" where
  "run_cells [] s = Some (None, s)"
| "run_cells (c # cs) s =
     (case c s of
        None \<Rightarrow> None
      | Some (Some e, s') \<Rightarrow> Some (Some e, s')
      | Some (None, s') \<Rightarrow> run_cells cs s')"

definition setup_cells :: "env \<Rightarrow> cell list" where
  "setup_cells w =
     [lift cell_install, lift (cell_sessions w), lift cell_download, lift (cell_role_bucket w),
      lift (cell_upload_model w), lift (cell_container w), lift (cell_model w),
      lift (cell_deploy w), lift (cell_autoscaling w)]"

definition use_cells :: "env \<Rightarrow> cell list" where
  "use_cells w =
     [lift (cell_upload_input w), lift (cell_predict w), cell_output w, cell_multiple w]"

definition cleanup_cells :: "env \<Rightarrow> cell list" where
  "cleanup_cells w = [lift (cell_deregister w), lift (cell_delete w)]"

definition notebook :: "env \<Rightarrow> cell list" where
  "notebook w = setup_cells w @ use_cells w @ cleanup_cells w"

definition run_notebook :: "env \<Rightarrow> (exn option \<times> nb) option" where
  "run_notebook w = run_cells (notebook w) nb0"

text \<open>The remote calls of a log, in order.\<close>

fun calls_of :: "event list \<Rightarrow> call list" where
  "calls_of [] = []"
| "calls_of (Call c # es) = c # calls_of es"
| "calls_of (_ # es) = calls_of es"

fun is_create :: "call \<Rightarrow> bool" where
  "is_create (UploadFileobj _ _ _) = True"
| "is_create (DeployEndpoint _ _) = True"
| "is_create (RegisterScalableTarget _) = True"
| "is_create (PutScalingPolicy _ _) = True"
| "is_create _ = False"

fun is_deploy :: "call \<Rightarrow> bool" where
  "is_deploy (DeployEndpoint _ _) = True"
| "is_deploy _ = False"

fun is_invoke :: "call \<Rightarrow> bool" where
  "is_invoke (PredictAsync _) = True"
| "is_invoke _ = False"

fun is_cleanup :: "call \<Rightarrow> bool" where
  "is_cleanup (DeregisterScalableTarget _) = True"
| "is_cleanup (DeleteEndpoint _) = True"
| "is_cleanup _ = False"

text \<open>
  \<open>extends P s s'\<close>: the log of \<open>s'\<close> is the log of \<open>s\<close> with more events at its end, and every
  remote call among the new events satisfies \<open>P\<close>.
\<close>

definition extends :: "(call \<Rightarrow> bool) \<Rightarrow> nb \<Rightarrow> nb \<Rightarrow> bool" where
  "extends P s s' =
     (take (length (log s)) (log s') = log s
      \<and> list_all P (calls_of (drop (length (log s)) (log s'))))"

text \<open>The remote calls that a run has added to the log since an earlier state.\<close>

definition calls_since :: "nb \<Rightarrow> nb \<Rightarrow> call list" where
  "calls_since s s' = calls_of (drop (length (log s)) (log s'))"

text \<open>\<open>keeps s s'\<close>: the names of the deployed resources are the same in both states.\<close>

definition keeps :: "nb \<Rightarrow> nb \<Rightarrow> bool" where
  "keeps s s' =
     (model_name s' = model_name s \<and> endpoint_name s' = endpoint_name s
      \<and> resource_id s' = resource_id s)"

definition in_prep :: "call \<Rightarrow> bool" where
  "in_prep c = (\<not> is_invoke c \<and> \<not> is_cleanup c \<and> \<not> is_deploy c)"

text \<open>\<open>prepares s s'\<close>: more events, no deploy, invocation or clean-up among them, the clock not read.\<close>

definition prepares :: "nb \<Rightarrow> nb \<Rightarrow> bool" where
  "prepares s s' = (extends in_prep s s' \<and> clock s' = clock s)"

definition in_setup :: "call \<Rightarrow> bool" where
  "in_setup c = (\<not> is_invoke c \<and> \<not> is_cleanup c)"

definition in_use :: "call \<Rightarrow> bool" where
  "in_use c = (\<not> is_create c \<and> \<not> is_cleanup c)"

fun is_read :: "call \<Rightarrow> bool" where
  "is_read (ReadS3File _ _) = True"
| "is_read _ = False"

text \<open>The object that \<open>get_output\<close> reads for a location, when the location parses.\<close>

definition reads_since :: "nb \<Rightarrow> nb \<Rightarrow> call list" where
  "reads_since s s' = filter is_read (calls_of (drop (length (log s)) (log s')))"

definition poll_target :: "env \<Rightarrow> string \<Rightarrow> call option" where
  "poll_target w location =
     (case urlparse w location of Inl e \<Rightarrow> None | Inr u \<Rightarrow> Some (read_call u))"

section \<open>Feature store notebook\<close>

subsection \<open>Strings\<close>


text \<open>\<open>s.split(sep)\<close> for a separator of one character: never empty, one more part than separators.\<close>

fun split_on :: "char \<Rightarrow> string \<Rightarrow> string list" where
  "split_on sep [] = [[]]"
| "split_on sep (c # cs) =
     (if c = sep then [] # split_on sep cs
      else (case split_on sep cs of
              [] \<Rightarrow> [[c]]
            | part # parts \<Rightarrow> (c # part) # parts))"

subsection \<open>The SDK version guards\<close>







subsection \<open>Searching features\<close>

text \<open>
  Values of the service's responses, and a pandas table as the list of its named columns,
  left to right (column labels may repeat).
\<close>

datatype jv = JNull | JStr string | JNum int | JList "jv list" | JDict "(string \<times> jv) list"

type_synonym table = "(string \<times> jv list) list"

record search_filter =
  Name :: string
  FilterOperator :: string
  Value :: string

record search_expression =
  Filters :: "search_filter list"
  Operator :: string

record search_request =
  Resource :: string
  SearchExpression :: search_expression

text \<open>\<open>col.split(".")[1]\<close>: the second part of a column label; a label without a dot has none.\<close>

definition second_part :: "string \<Rightarrow> exn + string" where
  "second_part col =
     (case split_on CHR ''.'' col of
        a # b # rest \<Rightarrow> Inr b
      | _ \<Rightarrow> Inl (Exception ''IndexError''))"

text \<open>\<open>df.columns = df.columns.map(f)\<close>: every label is replaced; the first label on which \<open>f\<close> raises stops it.\<close>

fun map_columns :: "(string \<Rightarrow> exn + string) \<Rightarrow> table \<Rightarrow> exn + table" where
  "map_columns f [] = Inr []"
| "map_columns f ((label, cells) # df) =
     (case f label of
        Inl e \<Rightarrow> Inl e
      | Inr label' \<Rightarrow>
          (case map_columns f df of
             Inl e \<Rightarrow> Inl e
           | Inr df' \<Rightarrow> Inr ((label', cells) # df')))"

text \<open>\<open>df.drop(label, axis=1)\<close>: the columns with that label are removed; pandas raises KeyError when there is none.\<close>

definition drop_column :: "string \<Rightarrow> table \<Rightarrow> exn + table" where
  "drop_column label df =
     (if label \<in> fst ` set df
      then Inr (filter (\<lambda>col. fst col \<noteq> label) df)
      else Inl (Exception ''KeyError''))"

text \<open>
  \<^verbatim>\<open>
  def search_features_using_string(search_string):
      response = sagemaker_client.search(
          Resource= "FeatureMetadata",
          SearchExpression={
              'Filters': [
                  {'Name': 'FeatureName', 'Operator': 'Contains', 'Value': search_string},
                  {'Name': 'Description', 'Operator': 'Contains', 'Value': search_string},
                  {'Name': 'AllParameters', 'Operator': 'Contains', 'Value': search_string}
              ],
              "Operator": "Or"
          },
      )
      df=pd.json_normalize(response['Results'], max_level=1)
      df.columns = df.columns.map(lambda col: col.split(".")[1])
      df=df.drop('FeatureGroupArn', axis=1)
      return df
  \<close>
  \<open>search\<close> is the service and \<open>json_normalize\<close> is \<open>pd.json_normalize(_, max_level=1)\<close>. The
  function yields its result, a table or the exception that left it, and the search calls
  it has made.
\<close>

definition search_features_using_string ::
  "(search_request \<Rightarrow> exn + (string \<times> jv) list) \<Rightarrow> (jv \<Rightarrow> exn + table) \<Rightarrow> string
     \<Rightarrow> (exn + table) \<times> search_request list" where
  "search_features_using_string search json_normalize search_string =
     (let request =
            \<lparr>Resource = ''FeatureMetadata'',
             SearchExpression =
               \<lparr>Filters =
                  [\<lparr>Name = ''FeatureName'', FilterOperator = ''Contains'', Value = search_string\<rparr>,
                   \<lparr>Name = ''Description'', FilterOperator = ''Contains'', Value = search_string\<rparr>,
                   \<lparr>Name = ''AllParameters'', FilterOperator = ''Contains'', Value = search_string\<rparr>],
                Operator = ''Or''\<rparr>\<rparr>
      in ((case search request of
             Inl e \<Rightarrow> Inl e
           | Inr response \<Rightarrow>
               (case map_of response ''Results'' of
                  None \<Rightarrow> Inl (Exception ''KeyError'')
                | Some results \<Rightarrow>
                    (case json_normalize results of
                       Inl e \<Rightarrow> Inl e
                     | Inr df \<Rightarrow>
                         (case map_columns second_part df of
                            Inl e \<Rightarrow> Inl e
                          | Inr df \<Rightarrow> drop_column ''FeatureGroupArn'' df)))),
          [request]))"

text \<open>
  \<open>pd.json_normalize(data, max_level=1)\<close> on a list of records. An empty list gives the
  empty table, with no column. Otherwise each record is flattened by one level: a value that
  is a dictionary is taken out and its entries are added at the end under the labels
  \<open>key.subkey\<close>. The columns are the labels of the flattened records in the order of their
  first appearance, and a record without a label has the missing value in that column.
\<close>

definition prefix_keys :: "string \<Rightarrow> (string \<times> jv) list \<Rightarrow> (string \<times> jv) list" where
  "prefix_keys k inner =
     foldl (\<lambda>d (k2, _).
              case map_of d k2 of
                None \<Rightarrow> d
              | Some v \<Rightarrow> AList.update (k @ ''.'' @ k2) v (AList.delete k2 d))
           inner inner"

definition flatten_record :: "(string \<times> jv) list \<Rightarrow> (string \<times> jv) list" where
  "flatten_record d =
     foldl (\<lambda>new_d (k, v).
              case v of
                JDict inner \<Rightarrow>
                  foldl (\<lambda>a (k', v'). AList.update k' v' a) (AList.delete k new_d) (prefix_keys k inner)
              | _ \<Rightarrow> new_d)
           d d"

fun as_records :: "jv list \<Rightarrow> exn + (string \<times> jv) list list" where
  "as_records [] = Inr []"
| "as_records (JDict d # rest) =
     (case as_records rest of Inl e \<Rightarrow> Inl e | Inr ds \<Rightarrow> Inr (d # ds))"
| "as_records (_ # rest) = Inl (Exception ''AttributeError'')"

definition frame :: "(string \<times> jv) list list \<Rightarrow> table" where
  "frame records =
     (let labels = foldl (\<lambda>seen r. seen @ filter (\<lambda>l. l \<notin> set seen) (map fst r)) [] records
      in map (\<lambda>l. (l, map (\<lambda>r. case map_of r l of None \<Rightarrow> JNull | Some v \<Rightarrow> v) records)) labels)"

definition pandas_normalize :: "jv \<Rightarrow> exn + table" where
  "pandas_normalize data =
     (case data of
        JList [] \<Rightarrow> Inr []
      | JList rows \<Rightarrow>
          (case as_records rows of
             Inl e \<Rightarrow> Inl e
           | Inr ds \<Rightarrow> Inr (frame (map flatten_record ds)))
      | JDict d \<Rightarrow> Inr (frame [flatten_record d])
      | _ \<Rightarrow> Inl (Exception ''NotImplementedError''))"

text \<open>A service for the examples: two features match \<open>married\<close>, nothing else matches.\<close>

definition demo_search :: "search_request \<Rightarrow> exn + (string \<times> jv) list" where
  "demo_search request =
     (if list_all (\<lambda>f. Value f = ''married'') (Filters (SearchExpression request))
      then Inr [(''Results'',
                 JList [JDict [(''FeatureMetadata'',
                                JDict [(''FeatureGroupArn'', JStr ''arn:aws:sagemaker:fg/customers''),
                                       (''FeatureGroupName'', JStr ''customers''),
                                       (''FeatureName'', JStr ''is_married''),
                                       (''Parameters'', JList [JDict [(''Key'', JStr ''org'')]])])],
                        JDict [(''FeatureMetadata'',
                                JDict [(''FeatureGroupArn'', JStr ''arn:aws:sagemaker:fg/day''),
                                       (''FeatureGroupName'', JStr ''day''),
                                       (''FeatureName'', JStr ''marital_married''),
                                       (''Description'', JStr ''one-hot'')])]])]
      else Inr [(''Results'', JList [])])"


section \<open>Batch transform notebook\<close>

text \<open>
  A Python string is modelled as a list of characters. \<open>s.replace(old, new)\<close> with \<open>old\<close> of
  one character puts \<open>new\<close> in the place of every occurrence of that character.
\<close>

definition replace_char :: "char \<Rightarrow> string \<Rightarrow> string \<Rightarrow> string" where
  "replace_char old new s = concat (map (\<lambda>c. if c = old then new else [c]) s)"

definition newline :: char where
  "newline = CHR 0x0A"

text \<open>
  The lines of a text file, as iterating over the open file gives them: each line with its
  newline at the end, but for a last line that has none.
\<close>

fun file_lines :: "string \<Rightarrow> string list" where
  "file_lines [] = []"
| "file_lines (c # cs) =
     (if c = newline then [c] # file_lines cs
      else (case file_lines cs of
              [] \<Rightarrow> [[c]]
            | line # rest \<Rightarrow> (c # line) # rest))"

subsection \<open>Writing the JSON Lines file\<close>

text \<open>
  \<^verbatim>\<open>
  dataset_jsonl_file="tweet_data.jsonl"
  data_json = []
  with open(dataset_jsonl_file, "w+") as outfile:
      for row in tweet_text:
          # remove @
          row = row.replace("@","")
          json.dump({'inputs': str(row)}, outfile)
          data_json.append({'inputs': str(row)})
          outfile.write('\n')
  \<close>
  A dictionary is the list of its items. \<open>dump\<close> is the text \<open>json.dump\<close> writes for an
  object. The file is opened with \<open>w+\<close>, so it starts empty.
\<close>

type_synonym json_object = "(string \<times> string) list"

record prep =
  outfile :: string
  data_json :: "json_object list"

definition write_row :: "(json_object \<Rightarrow> string) \<Rightarrow> prep \<Rightarrow> string \<Rightarrow> prep" where
  "write_row dump p row =
     (let row = replace_char CHR ''@'' [] row;
          p = p\<lparr>outfile := outfile p @ dump [(''inputs'', row)]\<rparr>;
          p = p\<lparr>data_json := data_json p @ [[(''inputs'', row)]]\<rparr>
      in p\<lparr>outfile := outfile p @ [newline]\<rparr>)"

definition preprocess :: "(json_object \<Rightarrow> string) \<Rightarrow> string list \<Rightarrow> prep" where
  "preprocess dump tweet_text = foldl (write_row dump) \<lparr>outfile = [], data_json = []\<rparr> tweet_text"

text \<open>
  The text \<open>json.dumps\<close> gives for a dictionary of strings, with the defaults of the library:
  items as \<open>"key": "value"\<close> joined by a comma and a space, and inside a string the quote and
  the backslash escaped, the control characters written \<open>\n\<close>, \<open>\r\<close>, \<open>\t\<close>, \<open>\b\<close>, \<open>\f\<close> or
  \<open>\u00XX\<close>, and every character outside ASCII written \<open>\u00XX\<close>.
\<close>

definition hex_digit :: "nat \<Rightarrow> char" where
  "hex_digit d = ''0123456789abcdef'' ! (d mod 16)"

definition json_escape :: "char \<Rightarrow> string" where
  "json_escape c =
     (if c = CHR 0x22 then [CHR 0x5C, CHR 0x22]
      else if c = CHR 0x5C then [CHR 0x5C, CHR 0x5C]
      else if c = CHR 0x0A then [CHR 0x5C, CHR ''n'']
      else if c = CHR 0x0D then [CHR 0x5C, CHR ''r'']
      else if c = CHR 0x09 then [CHR 0x5C, CHR ''t'']
      else if c = CHR 0x08 then [CHR 0x5C, CHR ''b'']
      else if c = CHR 0x0C then [CHR 0x5C, CHR ''f'']
      else if (of_char c :: nat) < 32 \<or> 126 < (of_char c :: nat)
      then [CHR 0x5C, CHR ''u'', CHR ''0'', CHR ''0'',
            hex_digit (of_char c div 16), hex_digit (of_char c)]
      else [c])"

definition json_string :: "string \<Rightarrow> string" where
  "json_string s = [CHR 0x22] @ concat (map json_escape s) @ [CHR 0x22]"

fun json_items :: "json_object \<Rightarrow> string" where
  "json_items [] = []"
| "json_items [(k, v)] = json_string k @ '': '' @ json_string v"
| "json_items ((k, v) # items) = json_string k @ '': '' @ json_string v @ '', '' @ json_items items"

definition json_dumps :: "json_object \<Rightarrow> string" where
  "json_dumps obj = ''{'' @ json_items obj @ ''}''"

subsection \<open>Reading the results of the transform job\<close>

text \<open>
  \<^verbatim>\<open>
  batch_transform_result = []
  with open(output_file) as f:
      for line in f:
          # converts jsonline array to normal array
          line = "[" + line.replace("[","").replace("]",",") + "]"
          batch_transform_result = literal_eval(line)
  \<close>
  \<open>literal_eval\<close> is the library function: it gives a value, or raises on a text that is not
  a Python literal, which ends the loop. \<open>initial\<close> is the value \<open>[]\<close> that the variable
  holds before the loop.
\<close>

definition bracket_line :: "string \<Rightarrow> string" where
  "bracket_line line = ''['' @ replace_char CHR '']'' '','' (replace_char CHR ''['' [] line) @ '']''"

fun download_loop :: "(string \<Rightarrow> exn + 'v) \<Rightarrow> 'v \<Rightarrow> string list \<Rightarrow> exn + 'v" where
  "download_loop literal_eval batch_transform_result [] = Inr batch_transform_result"
| "download_loop literal_eval batch_transform_result (line # rest) =
     (case literal_eval (bracket_line line) of
        Inl e \<Rightarrow> Inl e
      | Inr v \<Rightarrow> download_loop literal_eval v rest)"

definition read_results :: "(string \<Rightarrow> exn + 'v) \<Rightarrow> 'v \<Rightarrow> string \<Rightarrow> exn + 'v" where
  "read_results literal_eval initial file = download_loop literal_eval initial (file_lines file)"

text \<open>For the examples: a reader that accepts every text and gives the text itself as the value.\<close>

definition echo_eval :: "string \<Rightarrow> exn + string" where
  "echo_eval src = Inr src"

text \<open>Inputs for the examples.\<close>

definition demo_tweets :: "string list" where
  "demo_tweets = [''@user hi'', ''a@b@'']"

definition demo_output_file :: string where
  "demo_output_file = ''[{1: 2}]'' @ [newline] @ ''[{3: [4]}]'' @ [newline]"


section \<open>Inference pipeline notebook\<close>

subsection \<open>The featurizer script: \<open>output_fn\<close>\<close>

text \<open>
  \<^verbatim>\<open>
  def output_fn(prediction, accept):
      if accept == "application/json":
          instances = []
          for row in prediction.tolist():
              instances.append({"features": row})

          json_output = {"instances": instances}

          return worker.Response(json.dumps(json_output), mimetype=accept)
      elif accept == 'text/csv':
          return worker.Response(encoders.encode(prediction, accept), mimetype=accept)
      else:
          raise RuntimeException("{} accept type is not supported by this script.".format(accept))
  \<close>
  Python looks a name up among the local names of the function, then the names bound in
  the module, then the built-in names, and raises NameError when it is in none of them. The
  names of the module are those the script imports, assigns or defines.
\<close>

datatype py_exn =
    NameError string          \<comment> \<open>the name that is not defined\<close>
  | Raised string string      \<comment> \<open>an exception of a class, with its message\<close>

definition output_fn_locals :: "string list" where
  "output_fn_locals = [''prediction'', ''accept'', ''instances'', ''row'', ''json_output'']"

definition script_globals :: "string list" where
  "script_globals =
     [''print_function'', ''time'', ''sys'', ''StringIO'', ''os'', ''shutil'', ''argparse'',
      ''csv'', ''json'', ''joblib'', ''np'', ''pd'', ''ColumnTransformer'',
      ''make_column_selector'', ''SimpleImputer'', ''make_pipeline'', ''Binarizer'',
      ''StandardScaler'', ''OneHotEncoder'', ''content_types'', ''encoders'', ''env'',
      ''modules'', ''transformer'', ''worker'', ''feature_columns_names'', ''label_column'',
      ''feature_columns_dtype'', ''label_column_dtype'', ''merge_two_dicts'', ''parser'',
      ''args'', ''input_files'', ''raw_data'', ''concat_data'', ''numeric_transformer'',
      ''categorical_transformer'', ''preprocessor'', ''input_fn'', ''output_fn'',
      ''predict_fn'', ''model_fn'']"

definition builtin_names :: "string list" where
  "builtin_names =
     [''ArithmeticError'', ''AssertionError'', ''AttributeError'', ''BaseException'',
      ''BaseExceptionGroup'', ''BlockingIOError'', ''BrokenPipeError'', ''BufferError'',
      ''BytesWarning'', ''ChildProcessError'', ''ConnectionAbortedError'', ''ConnectionError'',
      ''ConnectionRefusedError'', ''ConnectionResetError'', ''DeprecationWarning'', ''EOFError'',
      ''Ellipsis'', ''EncodingWarning'', ''EnvironmentError'', ''Exception'', ''ExceptionGroup'',
      ''False'', ''FileExistsError'', ''FileNotFoundError'', ''FloatingPointError'',
      ''FutureWarning'', ''GeneratorExit'', ''IOError'', ''ImportError'', ''ImportWarning'',
      ''IndentationError'', ''IndexError'', ''InterruptedError'', ''IsADirectoryError'',
      ''KeyError'', ''KeyboardInterrupt'', ''LookupError'', ''MemoryError'',
      ''ModuleNotFoundError'', ''NameError'', ''None'', ''NotADirectoryError'',
      ''NotImplemented'', ''NotImplementedError'', ''OSError'', ''OverflowError'',
      ''PendingDeprecationWarning'', ''PermissionError'', ''ProcessLookupError'',
      ''RecursionError'', ''ReferenceError'', ''ResourceWarning'', ''RuntimeError'',
      ''RuntimeWarning'', ''StopAsyncIteration'', ''StopIteration'', ''SyntaxError'',
      ''SyntaxWarning'', ''SystemError'', ''SystemExit'', ''TabError'', ''TimeoutError'',
      ''True'', ''TypeError'', ''UnboundLocalError'', ''UnicodeDecodeError'',
      ''UnicodeEncodeError'', ''UnicodeError'', ''UnicodeTranslateError'', ''UnicodeWarning'',
      ''UserWarning'', ''ValueError'', ''Warning'', ''ZeroDivisionError'',
      ''__build_class__'', ''__debug__'', ''__doc__'', ''__import__'', ''__loader__'',
      ''__name__'', ''__package__'', ''__spec__'', ''abs'', ''aiter'', ''all'', ''anext'',
      ''any'', ''ascii'', ''bin'', ''bool'', ''breakpoint'', ''bytearray'', ''bytes'',
      ''callable'', ''chr'', ''classmethod'', ''compile'', ''complex'', ''copyright'',
      ''credits'', ''delattr'', ''dict'', ''dir'', ''divmod'', ''enumerate'', ''eval'',
      ''exec'', ''exit'', ''filter'', ''float'', ''format'', ''frozenset'', ''getattr'',
      ''globals'', ''hasattr'', ''hash'', ''help'', ''hex'', ''id'', ''input'', ''int'',
      ''isinstance'', ''issubclass'', ''iter'', ''len'', ''license'', ''list'', ''locals'',
      ''map'', ''max'', ''memoryview'', ''min'', ''next'', ''object'', ''oct'', ''open'',
      ''ord'', ''pow'', ''print'', ''property'', ''quit'', ''range'', ''repr'', ''reversed'',
      ''round'', ''set'', ''setattr'', ''slice'', ''sorted'', ''staticmethod'', ''str'',
      ''sum'', ''super'', ''tuple'', ''type'', ''vars'', ''zip'']"

definition name_defined :: "string \<Rightarrow> bool" where
  "name_defined n =
     (n \<in> set output_fn_locals \<or> n \<in> set script_globals \<or> n \<in> set builtin_names)"

record response =
  response_body :: string
  mimetype :: string

text \<open>
  \<open>tolist\<close> gives the rows of the prediction array, \<open>dumps\<close> is \<open>json.dumps\<close> and \<open>encode\<close> is
  \<open>encoders.encode\<close>, which may raise.
\<close>

definition output_fn ::
  "('p \<Rightarrow> 'row list) \<Rightarrow> ((string \<times> (string \<times> 'row) list list) list \<Rightarrow> string)
     \<Rightarrow> ('p \<Rightarrow> string \<Rightarrow> py_exn + string) \<Rightarrow> 'p \<Rightarrow> string \<Rightarrow> py_exn + response" where
  "output_fn tolist dumps encode prediction accept =
     (if accept = ''application/json''
      then (let instances = map (\<lambda>row. [(''features'', row)]) (tolist prediction);
                json_output = [(''instances'', instances)]
            in Inr \<lparr>response_body = dumps json_output, mimetype = accept\<rparr>)
      else if accept = ''text/csv''
      then (case encode prediction accept of
              Inl e \<Rightarrow> Inl e
            | Inr encoded \<Rightarrow> Inr \<lparr>response_body = encoded, mimetype = accept\<rparr>)
      else if name_defined ''RuntimeException''
      then Inl (Raised ''RuntimeException'' (accept @ '' accept type is not supported by this script.''))
      else Inl (NameError ''RuntimeException''))"

subsection \<open>Setting up the pipeline\<close>

text \<open>
  \<^verbatim>\<open>
  timestamp_prefix = strftime("%Y-%m-%d-%H-%M-%S", gmtime())

  scikit_learn_inferencee_model = sklearn_preprocessor.create_model()
  linear_learner_model = ll_estimator.create_model()

  model_name = "inference-pipeline-" + timestamp_prefix
  endpoint_name = "inference-pipeline-ep-" + timestamp_prefix
  sm_model = PipelineModel(
      name=model_name, role=role, models=[scikit_learn_inferencee_model, linear_learner_model]
  )

  sm_model.deploy(initial_instance_count=1, instance_type="ml.c4.xlarge", endpoint_name=endpoint_name)
  \<close>
  \<open>create_model\<close> gives the model of a fitted estimator and \<open>deploy\<close> is the SDK call; both may
  raise, which ends the cell. The cell yields the exception, if any, and what it did, in order.
\<close>

record 'm pipeline_model =
  pm_name :: string
  pm_role :: string
  pm_models :: "'m list"

datatype ('e, 'm) pipeline_event =
    CreateModel 'e
  | NewPipelineModel "'m pipeline_model"
  | DeployModel "'m pipeline_model" nat string string
      \<comment> \<open>the model, the initial instance count, the instance type, the endpoint name\<close>

definition setup_pipeline ::
  "('e \<Rightarrow> exn + 'm) \<Rightarrow> ('m pipeline_model \<Rightarrow> string \<Rightarrow> exn + unit) \<Rightarrow> string \<Rightarrow> string
     \<Rightarrow> 'e \<Rightarrow> 'e \<Rightarrow> exn option \<times> ('e, 'm) pipeline_event list" where
  "setup_pipeline create_model deploy timestamp_prefix role sklearn_preprocessor ll_estimator =
     (case create_model sklearn_preprocessor of
        Inl e \<Rightarrow> (Some e, [CreateModel sklearn_preprocessor])
      | Inr scikit_learn_inferencee_model \<Rightarrow>
          (case create_model ll_estimator of
             Inl e \<Rightarrow> (Some e, [CreateModel sklearn_preprocessor, CreateModel ll_estimator])
           | Inr linear_learner_model \<Rightarrow>
               (let model_name = ''inference-pipeline-'' @ timestamp_prefix;
                    endpoint_name = ''inference-pipeline-ep-'' @ timestamp_prefix;
                    sm_model = \<lparr>pm_name = model_name, pm_role = role,
                                pm_models = [scikit_learn_inferencee_model, linear_learner_model]\<rparr>;
                    trace = [CreateModel sklearn_preprocessor, CreateModel ll_estimator,
                            NewPipelineModel sm_model,
                            DeployModel sm_model 1 ''ml.c4.xlarge'' endpoint_name]
                in (case deploy sm_model endpoint_name of
                      Inl e \<Rightarrow> (Some e, trace)
                    | Inr _ \<Rightarrow> (None, trace)))))"

fun is_new_pipeline :: "('e, 'm) pipeline_event \<Rightarrow> bool" where
  "is_new_pipeline (NewPipelineModel _) = True"
| "is_new_pipeline _ = False"

fun is_deploy_model :: "('e, 'm) pipeline_event \<Rightarrow> bool" where
  "is_deploy_model (DeployModel _ _ _ _) = True"
| "is_deploy_model _ = False"

text \<open>For the examples: the two estimators of the notebook, and an SDK in which every call succeeds.\<close>

datatype estimator = SKLearn | LinearLearner

definition demo_create_model :: "estimator \<Rightarrow> exn + string" where
  "demo_create_model e =
     (case e of SKLearn \<Rightarrow> Inr ''sagemaker-scikit-learn-model''
              | LinearLearner \<Rightarrow> Inr ''linear-learner-model'')"

definition demo_deploy :: "string pipeline_model \<Rightarrow> string \<Rightarrow> exn + unit" where
  "demo_deploy m endpoint = Inr ()"



subsection \<open>A concrete world for the examples\<close>

text \<open>
  Locations are \<open>s3://bucket/key\<close>. Every call succeeds; an invocation answers with a fresh
  output location, numbered by the moment of the call; a read finds the object only at an odd
  moment and \<open>NoSuchKey\<close> at an even one. In \<open>stuck_env\<close> every call raises \<open>NoSuchKey\<close>. In
  \<open>waiting_env\<close> the calls answer as in \<open>demo_env\<close>, but no output object ever appears.
\<close>

definition s3_urlparse :: "string \<Rightarrow> exn + url" where
  "s3_urlparse location =
     Inr (if take 5 location = ''s3://''
          then \<lparr>netloc = takeWhile (\<lambda>c. c \<noteq> CHR ''/'') (drop 5 location),
                 path = dropWhile (\<lambda>c. c \<noteq> CHR ''/'') (drop 5 location)\<rparr>
          else \<lparr>netloc = [], path = location\<rparr>)"

definition demo_respond :: "nat \<Rightarrow> call \<Rightarrow> exn + string" where
  "demo_respond n c =
     (case c of
        BotoSession \<Rightarrow> Inr ''us-west-2''
      | DefaultBucket \<Rightarrow> Inr ''demo-bucket''
      | UploadData f b p \<Rightarrow> Inr (''s3://'' @ b @ ''/'' @ p @ ''/'' @ f)
      | PredictAsync l \<Rightarrow> Inr (''s3://demo-bucket/output/'' @ str_nat n @ ''.out'')
      | ReadS3File b k \<Rightarrow> if even n then Inl (ClientError ''NoSuchKey'') else Inr ''0.28''
      | _ \<Rightarrow> Inr [])"

definition demo_now :: "nat \<Rightarrow> string" where
  "demo_now n = (if n = 0 then ''2023-05-22-21-52-50'' else ''2023-05-22-21-52-51'')"

definition demo_env :: env where
  "demo_env = \<lparr>urlparse = s3_urlparse, respond = demo_respond, now = demo_now\<rparr>"

definition stuck_env :: env where
  "stuck_env = \<lparr>urlparse = s3_urlparse,
                 respond = (\<lambda>n c. Inl (ClientError ''NoSuchKey'')),
                 now = demo_now\<rparr>"

definition waiting_env :: env where
  "waiting_env =
     \<lparr>urlparse = s3_urlparse,
      respond = (\<lambda>n c. if is_read c then Inl (ClientError ''NoSuchKey'') else demo_respond n c),
      now = demo_now\<rparr>"

section \<open>Properties of the asynchronous inference notebook\<close>

subsection \<open>The polling loop\<close>


lemma log_emit [simp]: "log (emit es s) = log s @ es"
  and calls_emit [simp]: "calls (emit es s) = calls s"
  and inferences_emit [simp]: "inferences (emit es s) = inferences s"
  by (simp_all add: emit_def)

lemma log_called [simp]: "log (called c s) = log s @ [Call c]"
  and calls_called [simp]: "calls (called c s) = Suc (calls s)"
  and inferences_called [simp]: "inferences (called c s) = inferences s"
  by (simp_all add: called_def)

lemma calls_of_append [simp]: "calls_of (xs @ ys) = calls_of xs @ calls_of ys"
  by (induction xs rule: calls_of.induct) simp_all

lemma waited_eq:
  "waited n u s =
     s\<lparr>log := log s @ concat (replicate n (Call (read_call u) # wait_round)),
       calls := calls s + n\<rparr>"
proof (induction n arbitrary: s)
  case 0
  show ?case by simp
next
  case (Suc n)
  show ?case
    by (simp add: Suc.IH emit_def called_def)
qed

lemma get_output_loop_stop:
  assumes "respond w (calls s) (read_call u) = r" and "r \<noteq> no_such_key"
  shows "get_output_loop w u s = Some (r, called (read_call u) s)"
  using assms
  by (subst get_output_loop.simps)
     (auto simp: no_such_key_def remote_def split: sum.splits exn.splits)

lemma get_output_loop_retry:
  assumes "respond w (calls s) (read_call u) = no_such_key"
  shows "get_output_loop w u s = get_output_loop w u (emit wait_round (called (read_call u) s))"
  using assms
  by (subst get_output_loop.simps) (simp add: no_such_key_def remote_def)

lemma get_output_loop_run:
  assumes "\<forall>j<n. respond w (calls s + j) (read_call u) = no_such_key"
    and "respond w (calls s + n) (read_call u) = r"
    and "r \<noteq> no_such_key"
  shows "get_output_loop w u s = Some (r, called (read_call u) (waited n u s))"
  using assms
proof (induction n arbitrary: s)
  case 0
  then show ?case by (simp add: get_output_loop_stop)
next
  case (Suc n)
  let ?s' = "emit wait_round (called (read_call u) s)"
  have first: "respond w (calls s) (read_call u) = no_such_key"
    using Suc.prems(1) by (metis add.right_neutral zero_less_Suc)
  have rest: "\<forall>j<n. respond w (calls ?s' + j) (read_call u) = no_such_key"
  proof (intro allI impI)
    fix j assume "j < n"
    then have "Suc j < Suc n" by simp
    with Suc.prems(1) have "respond w (calls s + Suc j) (read_call u) = no_such_key" by blast
    then show "respond w (calls ?s' + j) (read_call u) = no_such_key" by simp
  qed
  have last: "respond w (calls ?s' + n) (read_call u) = r"
    using Suc.prems(2) by simp
  have "get_output_loop w u ?s' = Some (r, called (read_call u) (waited n u ?s'))"
    by (rule Suc.IH [OF rest last Suc.prems(3)])
  then show ?case
    by (simp add: get_output_loop_retry [OF first])
qed

lemma get_output_loop_Some:
  assumes "get_output_loop w u s = Some y"
  shows "\<exists>n. respond w (calls s + n) (read_call u) \<noteq> no_such_key"
proof (rule get_output_loop.raw_induct
    [where P = "\<lambda>w u s y. \<exists>n. respond w (calls s + n) (read_call u) \<noteq> no_such_key",
     OF _ assms])
  fix f w u s and y :: "(exn + string) \<times> nb"
  assume IH: "\<And>w u s y. f w u s = Some y \<Longrightarrow>
      \<exists>n. respond w (calls s + n) (read_call u) \<noteq> no_such_key"
    and body: "(case remote w (read_call u) s of
        (Inl e, s') \<Rightarrow>
          (case e of
             ClientError code \<Rightarrow>
               if code = ''NoSuchKey''
               then f w u (emit wait_round s')
               else Some (Inl e, s')
           | Exception c \<Rightarrow> Some (Inl e, s'))
      | (Inr body, s') \<Rightarrow> Some (Inr body, s')) = Some y"
  show "\<exists>n. respond w (calls s + n) (read_call u) \<noteq> no_such_key"
  proof (cases "respond w (calls s) (read_call u) = no_such_key")
    case True
    with body have "f w u (emit wait_round (called (read_call u) s)) = Some y"
      by (simp add: no_such_key_def remote_def)
    from IH [OF this] obtain n where
      "respond w (Suc (calls s) + n) (read_call u) \<noteq> no_such_key"
      by auto
    then have "respond w (calls s + Suc n) (read_call u) \<noteq> no_such_key"
      by simp
    then show ?thesis by blast
  next
    case False
    then have "respond w (calls s + 0) (read_call u) \<noteq> no_such_key" by simp
    then show ?thesis by blast
  qed
qed

lemma first_answer:
  assumes "\<exists>n. respond w (c + n) q \<noteq> no_such_key"
  obtains m where "\<forall>j<m. respond w (c + j) q = no_such_key"
    and "respond w (c + m) q \<noteq> no_such_key"
proof -
  define m where "m = (LEAST n. respond w (c + n) q \<noteq> no_such_key)"
  have "respond w (c + m) q \<noteq> no_such_key"
    unfolding m_def using assms by (rule LeastI_ex)
  moreover have "\<forall>j<m. respond w (c + j) q = no_such_key"
    unfolding m_def using not_less_Least by blast
  ultimately show thesis using that by blast
qed

lemma get_output_loop_None_iff:
  "get_output_loop w u s = None \<longleftrightarrow>
     (\<forall>n. respond w (calls s + n) (read_call u) = no_such_key)"
proof
  assume none: "get_output_loop w u s = None"
  show "\<forall>n. respond w (calls s + n) (read_call u) = no_such_key"
  proof (rule ccontr)
    assume "\<not> ?thesis"
    then have "\<exists>n. respond w (calls s + n) (read_call u) \<noteq> no_such_key" by simp
    then obtain m where "\<forall>j<m. respond w (calls s + j) (read_call u) = no_such_key"
      and "respond w (calls s + m) (read_call u) \<noteq> no_such_key"
      by (rule first_answer)
    from get_output_loop_run [OF this(1) refl this(2)] none show False by simp
  qed
next
  assume all: "\<forall>n. respond w (calls s + n) (read_call u) = no_such_key"
  show "get_output_loop w u s = None"
  proof (cases "get_output_loop w u s")
    case None then show ?thesis .
  next
    case (Some y)
    from get_output_loop_Some [OF this] all show ?thesis by blast
  qed
qed

lemma get_output_loop_SomeD:
  assumes "get_output_loop w u s = Some (r, s')"
  shows "\<exists>n. (\<forall>j<n. respond w (calls s + j) (read_call u) = no_such_key)
           \<and> respond w (calls s + n) (read_call u) = r \<and> r \<noteq> no_such_key
           \<and> s' = called (read_call u) (waited n u s)"
proof -
  from get_output_loop_Some [OF assms]
  obtain m where before: "\<forall>j<m. respond w (calls s + j) (read_call u) = no_such_key"
    and at: "respond w (calls s + m) (read_call u) \<noteq> no_such_key"
    by (rule first_answer)
  from get_output_loop_run [OF before refl at] assms
  have "r = respond w (calls s + m) (read_call u)" and "s' = called (read_call u) (waited m u s)"
    by simp_all
  with before at show ?thesis by blast
qed

text \<open>
  Claim C1. On an output location that \<open>urlparse\<close> accepts, \<open>get_output\<close> reads the output
  object; as long as the read raises the ClientError with code \<open>NoSuchKey\<close> it prints, sleeps
  two seconds and reads again; the first read with any other outcome ends the function:
  contents are returned, and any other exception leaves the function as it is. So after \<open>n\<close>
  reads that raise \<open>NoSuchKey\<close> the function returns the outcome \<open>r\<close> of read \<open>n\<close>, having made
  \<open>n + 1\<close> reads and \<open>n\<close> rounds of print and sleep, and nothing else.
\<close>

theorem get_output_polls:
  assumes "urlparse w location = Inr u"
    and "\<forall>j<n. respond w (calls s + j) (ReadS3File (netloc u) (drop 1 (path u)))
                 = Inl (ClientError ''NoSuchKey'')"
    and "respond w (calls s + n) (ReadS3File (netloc u) (drop 1 (path u))) = r"
    and "r \<noteq> Inl (ClientError ''NoSuchKey'')"
  shows "get_output w location s =
           Some (r, s\<lparr>log := log s
                        @ concat (replicate n [Call (ReadS3File (netloc u) (drop 1 (path u))),
                                               Print ''waiting for output...'', Sleep 2000])
                        @ [Call (ReadS3File (netloc u) (drop 1 (path u)))],
                      calls := calls s + n + 1\<rparr>)"
proof -
  have "get_output_loop w u s = Some (r, called (read_call u) (waited n u s))"
    using assms(2-4) by (intro get_output_loop_run) (simp_all add: read_call_def no_such_key_def)
  then show ?thesis
    using assms(1) by (simp add: get_output_def waited_eq called_def read_call_def wait_round_def)
qed

theorem get_output_polls_witness:
  "get_output demo_env ''s3://demo-bucket/output/7.out'' nb0 =
     Some (Inr ''0.28'',
           nb0\<lparr>log := [Call (ReadS3File ''demo-bucket'' ''output/7.out''),
                        Print ''waiting for output...'', Sleep 2000,
                        Call (ReadS3File ''demo-bucket'' ''output/7.out'')],
                calls := 2\<rparr>)"
  using get_output_polls [of demo_env "''s3://demo-bucket/output/7.out''"
      "\<lparr>netloc = ''demo-bucket'', path = ''/output/7.out''\<rparr>" 1 nb0 "Inr ''0.28''"]
  by (simp add: demo_env_def s3_urlparse_def demo_respond_def nb0_def)

text \<open>
  Claim C2. \<open>get_output\<close> has no retry budget. On an output location that \<open>urlparse\<close>
  accepts, it never returns exactly when every read raises \<open>NoSuchKey\<close>; and when it returns,
  it returns the outcome of a read that is a success or another exception.
\<close>

theorem get_output_no_retry_budget:
  assumes "urlparse w location = Inr u"
  shows "(get_output w location s = None)
           = (\<forall>j. respond w (calls s + j) (ReadS3File (netloc u) (drop 1 (path u)))
                    = Inl (ClientError ''NoSuchKey''))
       \<and> (\<forall>r s'. get_output w location s = Some (r, s') \<longrightarrow>
             (\<exists>n. respond w (calls s + n) (ReadS3File (netloc u) (drop 1 (path u))) = r
                \<and> r \<noteq> Inl (ClientError ''NoSuchKey'')
                \<and> calls s' = calls s + n + 1))"
proof (intro conjI allI impI)
  show "(get_output w location s = None)
           = (\<forall>j. respond w (calls s + j) (ReadS3File (netloc u) (drop 1 (path u)))
                    = Inl (ClientError ''NoSuchKey''))"
    using assms get_output_loop_None_iff [of w u s]
    by (simp add: get_output_def read_call_def no_such_key_def)
next
  fix r s' assume "get_output w location s = Some (r, s')"
  with assms have "get_output_loop w u s = Some (r, s')" by (simp add: get_output_def)
  from get_output_loop_SomeD [OF this] obtain n where
    "respond w (calls s + n) (read_call u) = r" "r \<noteq> no_such_key"
    "s' = called (read_call u) (waited n u s)" by blast
  then show "\<exists>n. respond w (calls s + n) (ReadS3File (netloc u) (drop 1 (path u))) = r
                \<and> r \<noteq> Inl (ClientError ''NoSuchKey'')
                \<and> calls s' = calls s + n + 1"
    by (auto simp: read_call_def no_such_key_def waited_eq)
qed

theorem get_output_no_retry_budget_witness:
  "get_output stuck_env ''s3://demo-bucket/output/7.out'' nb0 = None"
  using get_output_no_retry_budget [of stuck_env "''s3://demo-bucket/output/7.out''"
      "\<lparr>netloc = ''demo-bucket'', path = ''/output/7.out''\<rparr>" nb0]
  by (simp add: stuck_env_def s3_urlparse_def)

subsection \<open>The order of the remote calls\<close>

lemma extendsI:
  "log s' = log s @ es \<Longrightarrow> list_all P (calls_of es) \<Longrightarrow> extends P s s'"
  by (simp add: extends_def)

lemma extendsE:
  assumes "extends P s s'"
  obtains es where "log s' = log s @ es" and "list_all P (calls_of es)"
proof -
  from assms have "log s' = log s @ drop (length (log s)) (log s')"
    by (metis append_take_drop_id extends_def)
  with assms that show thesis by (auto simp: extends_def)
qed

lemma extends_refl [simp]: "extends P s s"
  by (simp add: extends_def)

lemma extends_trans:
  assumes "extends P s s'" and "extends P s' s''"
  shows "extends P s s''"
proof -
  from assms(1) obtain es where 1: "log s' = log s @ es" "list_all P (calls_of es)"
    by (rule extendsE)
  from assms(2) obtain fs where 2: "log s'' = log s' @ fs" "list_all P (calls_of fs)"
    by (rule extendsE)
  show ?thesis
    by (rule extendsI [where es = "es @ fs"]) (simp_all add: 1 2)
qed

lemmas cell_defs = bind_call_def remote_def called_def emit_def seq_def shell_def Let_def

lemma cell_install_setup: "cell_install s = (r, s') \<Longrightarrow> extends in_setup s s'"
  by (auto simp: cell_install_def cell_defs extends_def in_setup_def)

lemma cell_sessions_setup: "cell_sessions w s = (r, s') \<Longrightarrow> extends in_setup s s'"
  by (auto simp: cell_sessions_def cell_defs extends_def in_setup_def split: sum.splits)

lemma cell_download_setup: "cell_download s = (r, s') \<Longrightarrow> extends in_setup s s'"
  by (auto simp: cell_download_def cell_defs extends_def in_setup_def)

lemma cell_role_bucket_setup: "cell_role_bucket w s = (r, s') \<Longrightarrow> extends in_setup s s'"
  by (auto simp: cell_role_bucket_def cell_defs extends_def in_setup_def split: sum.splits)

lemma cell_upload_model_setup: "cell_upload_model w s = (r, s') \<Longrightarrow> extends in_setup s s'"
  by (auto simp: cell_upload_model_def cell_defs extends_def in_setup_def split: sum.splits)

lemma cell_container_setup: "cell_container w s = (r, s') \<Longrightarrow> extends in_setup s s'"
  by (auto simp: cell_container_def cell_defs extends_def in_setup_def split: sum.splits)

lemma cell_model_setup: "cell_model w s = (r, s') \<Longrightarrow> extends in_setup s s'"
  by (auto simp: cell_model_def cell_defs extends_def in_setup_def split: sum.splits)

lemma cell_deploy_setup: "cell_deploy w s = (r, s') \<Longrightarrow> extends in_setup s s'"
  by (auto simp: cell_deploy_def cell_defs extends_def in_setup_def split: sum.splits)

lemma cell_autoscaling_setup: "cell_autoscaling w s = (r, s') \<Longrightarrow> extends in_setup s s'"
  by (auto simp: cell_autoscaling_def cell_defs extends_def in_setup_def split: sum.splits)

lemma cell_deploy_log:
  "cell_deploy w s = (r, s') \<Longrightarrow> \<exists>m e. log s' = log s @ [Call (DeployEndpoint m e)]"
  by (auto simp: cell_deploy_def cell_defs split: sum.splits)

lemma upload_file_use: "upload_file w f s = (r, s') \<Longrightarrow> extends in_use s s'"
  by (auto simp: upload_file_def cell_defs extends_def in_use_def split: sum.splits)

lemma cell_upload_input_use: "cell_upload_input w s = (r, s') \<Longrightarrow> extends in_use s s'"
  by (auto simp: cell_upload_input_def upload_file_def cell_defs extends_def in_use_def split: sum.splits)

lemma cell_predict_use: "cell_predict w s = (r, s') \<Longrightarrow> extends in_use s s'"
  by (auto simp: cell_predict_def cell_defs extends_def in_use_def split: sum.splits)

lemma invoke_one_use: "invoke_one w i s = (r, s') \<Longrightarrow> extends in_use s s'"
  by (auto simp: invoke_one_def upload_file_def cell_defs extends_def in_use_def split: sum.splits)


lemma calls_of_rounds [simp]:
  "calls_of (concat (replicate n (Call c # wait_round))) = replicate n c"
  by (induction n) (simp_all add: wait_round_def)

lemma get_output_reads:
  assumes "get_output w location s = Some (Inr out, s')"
  shows "\<exists>n. log s' = log s @ concat (replicate n (Call (the (poll_target w location)) # wait_round))
                  @ [Call (the (poll_target w location))]
           \<and> poll_target w location \<noteq> None
           \<and> inferences s' = inferences s"
proof -
  from assms obtain u where u: "urlparse w location = Inr u"
    and loop: "get_output_loop w u s = Some (Inr out, s')"
    by (auto simp: get_output_def split: sum.splits)
  from get_output_loop_SomeD [OF loop] obtain n
    where "s' = called (read_call u) (waited n u s)" by blast
  then have "log s' = log s @ concat (replicate n (Call (read_call u) # wait_round)) @ [Call (read_call u)]"
    and "inferences s' = inferences s"
    by (simp_all add: waited_eq)
  with u show ?thesis by (auto simp: poll_target_def)
qed

lemma get_output_use:
  assumes "get_output w location s = Some (r, s')"
  shows "extends in_use s s'"
proof (cases "urlparse w location")
  case (Inl e)
  with assms show ?thesis by (simp add: get_output_def)
next
  case (Inr u)
  with assms have "get_output_loop w u s = Some (r, s')" by (simp add: get_output_def)
  from get_output_loop_SomeD [OF this] obtain n
    where s': "s' = called (read_call u) (waited n u s)" by blast
  show ?thesis
    by (rule extendsI [where es = "concat (replicate n (Call (read_call u) # wait_round)) @ [Call (read_call u)]"])
       (simp_all add: s' waited_eq in_use_def read_call_def list_all_iff)
qed

lemma cell_output_use:
  assumes "cell_output w s = Some (r, s')"
  shows "extends in_use s s'"
proof (cases "get_output w (output_location s) s")
  case None
  with assms show ?thesis by (simp add: cell_output_def)
next
  case (Some y)
  obtain v t where y: "y = (v, t)" by (cases y)
  from Some y have ext: "extends in_use s t" by (auto dest: get_output_use)
  from assms Some y have "log s' = log t \<or> (\<exists>out. log s' = log t @ [Print out])"
    by (auto simp: cell_output_def split: sum.splits)
  then have "extends in_use t s'" by (auto simp: extends_def)
  with ext show ?thesis by (rule extends_trans)
qed

lemma show_one_use:
  assumes "show_one w p s = Some (r, s')"
  shows "extends in_use s s'"
proof -
  let ?s = "s\<lparr>input_file := fst p, output_location := snd p\<rparr>"
  from assms obtain v t where go: "get_output w (snd p) ?s = Some (v, t)"
    by (auto simp: show_one_def Let_def split: option.splits)
  then have "extends in_use ?s t" by (rule get_output_use)
  then have ext: "extends in_use s t" by (simp add: extends_def)
  from assms go have "log s' = log t \<or> (\<exists>out. log s' = log t @ [Print out])"
    by (auto simp: show_one_def Let_def split: sum.splits)
  then have "extends in_use t s'" by (auto simp: extends_def)
  with ext show ?thesis by (rule extends_trans)
qed

lemma for_each_extends:
  assumes "\<And>x s r s'. body x s = (r, s') \<Longrightarrow> extends P s s'"
    and "for_each body xs s = (r, s')"
  shows "extends P s s'"
  using assms(2)
proof (induction xs arbitrary: s)
  case Nil
  then show ?case by simp
next
  case (Cons x xs)
  obtain r1 s1 where b: "body x s = (r1, s1)" by (cases "body x s")
  then have e1: "extends P s s1" by (rule assms(1))
  show ?case
  proof (cases r1)
    case None
    with Cons.prems b have "for_each body xs s1 = (r, s')" by simp
    then have "extends P s1 s'" by (rule Cons.IH)
    with e1 show ?thesis by (rule extends_trans)
  next
    case (Some e)
    with Cons.prems b e1 show ?thesis by simp
  qed
qed

lemma for_each_cell_extends:
  assumes "\<And>x s r s'. body x s = Some (r, s') \<Longrightarrow> extends P s s'"
    and "for_each_cell body xs s = Some (r, s')"
  shows "extends P s s'"
  using assms(2)
proof (induction xs arbitrary: s)
  case Nil
  then show ?case by simp
next
  case (Cons x xs)
  from Cons.prems obtain r1 s1 where b: "body x s = Some (r1, s1)"
    by (auto split: option.splits)
  then have e1: "extends P s s1" by (rule assms(1))
  show ?case
  proof (cases r1)
    case None
    with Cons.prems b have "for_each_cell body xs s1 = Some (r, s')" by simp
    then have "extends P s1 s'" by (rule Cons.IH)
    with e1 show ?thesis by (rule extends_trans)
  next
    case (Some e)
    with Cons.prems b e1 show ?thesis by simp
  qed
qed

lemma run_cells_extends:
  assumes "\<And>c s r s'. c \<in> set cs \<Longrightarrow> c s = Some (r, s') \<Longrightarrow> extends P s s'"
    and "run_cells cs s = Some (r, s')"
  shows "extends P s s'"
  using assms
proof (induction cs arbitrary: s)
  case Nil
  then show ?case by simp
next
  case (Cons c cs)
  from Cons.prems(2) obtain r1 s1 where b: "c s = Some (r1, s1)"
    by (auto split: option.splits)
  have "c \<in> set (c # cs)" by simp
  then have e1: "extends P s s1" using b by (rule Cons.prems(1))
  show ?case
  proof (cases r1)
    case None
    with Cons.prems(2) b have "run_cells cs s1 = Some (r, s')" by simp
    moreover have "\<And>c s r s'. c \<in> set cs \<Longrightarrow> c s = Some (r, s') \<Longrightarrow> extends P s s'"
      using Cons.prems(1) by (meson list.set_intros(2))
    ultimately have "extends P s1 s'" using Cons.IH by blast
    with e1 show ?thesis by (rule extends_trans)
  next
    case (Some e)
    with Cons.prems(2) b e1 show ?thesis by simp
  qed
qed

lemma invoke_loop_use: "invoke_loop w s = (r, s') \<Longrightarrow> extends in_use s s'"
proof -
  assume "invoke_loop w s = (r, s')"
  then have "for_each (invoke_one w) [0..<25] (s\<lparr>inferences := []\<rparr>) = (r, s')"
    by (simp add: invoke_loop_def)
  then have "extends in_use (s\<lparr>inferences := []\<rparr>) s'"
    by (rule for_each_extends [rotated]) (rule invoke_one_use)
  then show ?thesis by (simp add: extends_def)
qed

lemma result_loop_use:
  assumes "result_loop w s = Some (r, s')"
  shows "extends in_use s s'"
proof -
  from assms have "for_each_cell (show_one w) (inferences s) s = Some (r, s')"
    by (simp add: result_loop_def)
  then show ?thesis
    by (rule for_each_cell_extends [rotated]) (rule show_one_use)
qed

lemma cell_multiple_use:
  assumes "cell_multiple w s = Some (r, s')"
  shows "extends in_use s s'"
proof -
  obtain r1 s1 where i: "invoke_loop w s = (r1, s1)" by (cases "invoke_loop w s")
  then have e1: "extends in_use s s1" by (rule invoke_loop_use)
  show ?thesis
  proof (cases r1)
    case None
    with assms i have "result_loop w s1 = Some (r, s')" by (simp add: cell_multiple_def)
    then have "extends in_use s1 s'" by (rule result_loop_use)
    with e1 show ?thesis by (rule extends_trans)
  next
    case (Some e)
    with assms i e1 show ?thesis by (simp add: cell_multiple_def)
  qed
qed

lemma setup_cells_setup:
  assumes "run_cells (setup_cells w) s = Some (r, s')"
  shows "extends in_setup s s'"
  using _ assms
proof (rule run_cells_extends)
  fix c s r s'
  assume "c \<in> set (setup_cells w)" and "c s = Some (r, s')"
  then show "extends in_setup s s'"
    by (auto simp: setup_cells_def lift_def
        dest: cell_install_setup cell_sessions_setup cell_download_setup cell_role_bucket_setup
          cell_upload_model_setup cell_container_setup cell_model_setup cell_deploy_setup
          cell_autoscaling_setup)
qed

lemma use_cells_use:
  assumes "run_cells (use_cells w) s = Some (r, s')"
  shows "extends in_use s s'"
  using _ assms
proof (rule run_cells_extends)
  fix c s r s'
  assume "c \<in> set (use_cells w)" and "c s = Some (r, s')"
  then show "extends in_use s s'"
    by (auto simp: use_cells_def lift_def
        dest: cell_upload_input_use cell_predict_use cell_output_use cell_multiple_use)
qed

lemma run_cells_append:
  "run_cells (xs @ ys) s =
     (case run_cells xs s of
        None \<Rightarrow> None
      | Some (Some e, s') \<Rightarrow> Some (Some e, s')
      | Some (None, s') \<Rightarrow> run_cells ys s')"
  by (induction xs arbitrary: s) (auto split: option.splits)

lemma setup_cells_deploy:
  assumes "run_cells (setup_cells w) s = Some (None, s')"
  shows "list_ex is_deploy (calls_of (drop (length (log s)) (log s')))"
proof -
  let ?A = "[lift cell_install, lift (cell_sessions w), lift cell_download, lift (cell_role_bucket w),
      lift (cell_upload_model w), lift (cell_container w), lift (cell_model w)]"
  have split: "setup_cells w = ?A @ [lift (cell_deploy w), lift (cell_autoscaling w)]"
    by (simp add: setup_cells_def)
  from assms obtain s1 where a: "run_cells ?A s = Some (None, s1)"
    and b: "run_cells [lift (cell_deploy w), lift (cell_autoscaling w)] s1 = Some (None, s')"
    unfolding split run_cells_append by (auto split: option.splits)
  from b obtain s2 where d: "cell_deploy w s1 = (None, s2)"
    and sc: "cell_autoscaling w s2 = (None, s')"
    by (auto simp: lift_def split: option.splits prod.splits)
  have "extends in_setup s s1"
    using _ a
  proof (rule run_cells_extends)
    fix c s r s'
    assume "c \<in> set ?A" and "c s = Some (r, s')"
    then show "extends in_setup s s'"
      by (auto simp: lift_def
        dest: cell_install_setup cell_sessions_setup cell_download_setup cell_role_bucket_setup
          cell_upload_model_setup cell_container_setup cell_model_setup)
  qed
  then obtain es where es: "log s1 = log s @ es" by (rule extendsE)
  from cell_deploy_log [OF d] obtain m e where dl: "log s2 = log s1 @ [Call (DeployEndpoint m e)]"
    by blast
  from cell_autoscaling_setup [OF sc] obtain fs where fs: "log s' = log s2 @ fs"
    by (rule extendsE)
  show ?thesis
    by (simp add: es dl fs)
qed

lemma cleanup_cells_log:
  assumes "run_cells (cleanup_cells w) s = Some (r, s')"
  shows "(\<exists>rid. log s' = log s @ [Call (DeregisterScalableTarget rid)])
       \<or> (\<exists>rid e. log s' = log s @ [Call (DeregisterScalableTarget rid), Call (DeleteEndpoint e)])"
  using assms
  by (auto simp: cleanup_cells_def cell_deregister_def cell_delete_def lift_def cell_defs
      split: sum.splits)


lemma notebook_phases:
  assumes "run_notebook w = Some (r, s)"
  shows "\<exists>pre use post. calls_of (log s) = pre @ use @ post
           \<and> list_all in_setup pre
           \<and> (use @ post \<noteq> [] \<longrightarrow> list_ex is_deploy pre)
           \<and> list_all in_use use
           \<and> (post = [] \<or> (\<exists>rid. post = [DeregisterScalableTarget rid])
                \<or> (\<exists>rid e. post = [DeregisterScalableTarget rid, DeleteEndpoint e]))"
proof -
  from assms have run: "run_cells (setup_cells w @ use_cells w @ cleanup_cells w) nb0 = Some (r, s)"
    by (simp add: run_notebook_def notebook_def)
  then obtain r1 s1 where 1: "run_cells (setup_cells w) nb0 = Some (r1, s1)"
    unfolding run_cells_append [of "setup_cells w"] by (auto split: option.splits)
  from setup_cells_setup [OF 1] have pre: "list_all in_setup (calls_of (log s1))"
    by (simp add: extends_def nb0_def)
  show ?thesis
  proof (cases r1)
    case (Some e)
    with run 1 have "s = s1" unfolding run_cells_append [of "setup_cells w"] by simp
    with pre show ?thesis by (intro exI [of _ "calls_of (log s1)"] exI [of _ "[]"]) simp
  next
    case None
    with 1 have dep: "list_ex is_deploy (calls_of (log s1))"
      by (auto dest: setup_cells_deploy simp: nb0_def)
    from run 1 None have run2: "run_cells (use_cells w @ cleanup_cells w) s1 = Some (r, s)"
      unfolding run_cells_append [of "setup_cells w"] by simp
    then obtain r2 s2 where 2: "run_cells (use_cells w) s1 = Some (r2, s2)"
      unfolding run_cells_append [of "use_cells w"] by (auto split: option.splits)
    from use_cells_use [OF 2] obtain es where es: "log s2 = log s1 @ es"
      and use: "list_all in_use (calls_of es)" by (rule extendsE)
    show ?thesis
    proof (cases r2)
      case (Some e)
      with run2 2 have "s = s2" unfolding run_cells_append [of "use_cells w"] by simp
      with pre dep use es show ?thesis
        by (intro exI [of _ "calls_of (log s1)"] exI [of _ "calls_of es"] exI [of _ "[]"]) simp
    next
      case None
      with run2 2 have "run_cells (cleanup_cells w) s2 = Some (r, s)"
        unfolding run_cells_append [of "use_cells w"] by simp
      from cleanup_cells_log [OF this]
      obtain post where "log s = log s2 @ map Call post"
        and "(\<exists>rid. post = [DeregisterScalableTarget rid])
              \<or> (\<exists>rid e. post = [DeregisterScalableTarget rid, DeleteEndpoint e])"
        by (metis list.simps(8) list.simps(9))
      moreover have "calls_of (map Call post) = post" by (induction post) simp_all
      ultimately show ?thesis
        using pre dep use es
        by (intro exI [of _ "calls_of (log s1)"] exI [of _ "calls_of es"] exI [of _ post]) simp
    qed
  qed
qed

lemma occurs_after_prefix:
  assumes "as @ bs = xs @ c # ys" and "c \<notin> set as"
  obtains zs where "xs = as @ zs" and "bs = zs @ c # ys"
proof -
  from assms(1) obtain us where
    "(as = xs @ us \<and> us @ bs = c # ys) \<or> (as @ us = xs \<and> bs = us @ c # ys)"
    unfolding append_eq_append_conv2 by blast
  then show thesis
  proof
    assume a: "as = xs @ us \<and> us @ bs = c # ys"
    show thesis
    proof (cases us)
      case Nil
      with a that [of "[]"] show thesis by simp
    next
      case (Cons u us')
      with a have "c \<in> set as" by simp
      with assms(2) show thesis by simp
    qed
  next
    assume "as @ us = xs \<and> bs = us @ c # ys"
    with that [of us] show thesis by simp
  qed
qed

lemma ordered_run:
  assumes "run_notebook w = Some (r, s)"
  shows "(\<forall>xs c ys. calls_of (log s) = xs @ c # ys \<and> is_invoke c \<longrightarrow> list_ex is_deploy xs)
       \<and> (\<forall>xs c ys. calls_of (log s) = xs @ c # ys \<and> is_cleanup c \<longrightarrow>
              list_all (\<lambda>d. is_cleanup d \<and> \<not> is_invoke d \<and> \<not> is_create d) ys)
       \<and> (\<forall>xs e ys. calls_of (log s) = xs @ DeleteEndpoint e # ys \<longrightarrow>
              (\<exists>rid. DeregisterScalableTarget rid \<in> set xs))"
proof -
  from notebook_phases [OF assms] obtain pre use post
    where cs: "calls_of (log s) = pre @ use @ post"
      and pre: "list_all in_setup pre"
      and dep: "use @ post \<noteq> [] \<longrightarrow> list_ex is_deploy pre"
      and use: "list_all in_use use"
      and post: "post = [] \<or> (\<exists>rid. post = [DeregisterScalableTarget rid])
                \<or> (\<exists>rid e. post = [DeregisterScalableTarget rid, DeleteEndpoint e])"
    by blast
  have not_pre: "c \<notin> set pre" if "is_invoke c \<or> is_cleanup c" for c
    using pre that by (auto simp: list_all_iff in_setup_def)
  have not_use: "c \<notin> set use" if "is_cleanup c" for c
    using use that by (auto simp: list_all_iff in_use_def)
  have post_cleanup: "list_all (\<lambda>d. is_cleanup d \<and> \<not> is_invoke d \<and> \<not> is_create d) post"
    using post by auto
  have in_post: "\<exists>zs. xs = pre @ use @ zs \<and> post = zs @ c # ys"
    if "calls_of (log s) = xs @ c # ys" and "is_cleanup c" for xs c ys
  proof -
    from that(1) cs have "(pre @ use) @ post = xs @ c # ys" by simp
    moreover have "c \<notin> set (pre @ use)" using not_pre not_use that(2) by simp
    ultimately obtain zs where "xs = (pre @ use) @ zs" "post = zs @ c # ys"
      by (rule occurs_after_prefix)
    then show ?thesis by simp
  qed
  have 1: "list_ex is_deploy xs" if "calls_of (log s) = xs @ c # ys" and "is_invoke c" for xs c ys
  proof -
    from that(1) cs have "pre @ (use @ post) = xs @ c # ys" by simp
    moreover have "c \<notin> set pre" using not_pre that(2) by simp
    ultimately obtain zs where xs: "xs = pre @ zs" and rest: "use @ post = zs @ c # ys"
      by (rule occurs_after_prefix)
    from rest have "use @ post \<noteq> []" by auto
    with dep have "list_ex is_deploy pre" by simp
    with xs show ?thesis by (auto simp: list_ex_iff)
  qed
  have 2: "list_all (\<lambda>d. is_cleanup d \<and> \<not> is_invoke d \<and> \<not> is_create d) ys"
    if "calls_of (log s) = xs @ c # ys" and "is_cleanup c" for xs c ys
  proof -
    from in_post [OF that] obtain zs where "post = zs @ c # ys" by blast
    with post_cleanup show ?thesis by simp
  qed
  have 3: "\<exists>rid. DeregisterScalableTarget rid \<in> set xs"
    if "calls_of (log s) = xs @ DeleteEndpoint e # ys" for xs e ys
  proof -
    from in_post [OF that] obtain zs where xs: "xs = pre @ use @ zs"
      and p: "post = zs @ DeleteEndpoint e # ys" by auto
    from post p have "\<exists>rid. DeregisterScalableTarget rid \<in> set zs"
      by (cases zs) auto
    with xs show ?thesis by auto
  qed
  from 1 2 3 show ?thesis by blast
qed

text \<open>What a finished run has done, phase by phase.\<close>


lemma calls_since_self [simp]: "calls_since s s = []"
  by (simp add: calls_since_def)

lemma calls_since_trans:
  assumes "extends P s s1" and "extends Q s1 s2"
  shows "calls_since s s2 = calls_since s s1 @ calls_since s1 s2"
proof -
  from assms(1) obtain es where 1: "log s1 = log s @ es" by (rule extendsE)
  from assms(2) obtain fs where 2: "log s2 = log s1 @ fs" by (rule extendsE)
  show ?thesis
    by (simp add: calls_since_def 1 2)
qed

lemma calls_of_since:
  assumes "extends P s s'"
  shows "calls_of (log s') = calls_of (log s) @ calls_since s s'"
    and "list_all P (calls_since s s')"
proof -
  from assms obtain es where "log s' = log s @ es" "list_all P (calls_of es)" by (rule extendsE)
  then show "calls_of (log s') = calls_of (log s) @ calls_since s s'"
    and "list_all P (calls_since s s')"
    by (simp_all add: calls_since_def)
qed

lemma keeps_refl [simp]: "keeps s s"
  by (simp add: keeps_def)

lemma keeps_trans: "keeps a b \<Longrightarrow> keeps b c \<Longrightarrow> keeps a c"
  by (simp add: keeps_def)

lemma prepares_refl [simp]: "prepares s s"
  by (simp add: prepares_def)

lemma prepares_trans: "prepares a b \<Longrightarrow> prepares b c \<Longrightarrow> prepares a c"
  by (auto simp: prepares_def intro: extends_trans)

lemma for_each_rel:
  assumes refl: "\<And>s. R s s" and trans: "\<And>a b c. R a b \<Longrightarrow> R b c \<Longrightarrow> R a c"
    and step: "\<And>x s r s'. body x s = (r, s') \<Longrightarrow> R s s'"
    and run: "for_each body xs s = (r, s')"
  shows "R s s'"
  using run
proof (induction xs arbitrary: s)
  case Nil
  then show ?case by (simp add: refl)
next
  case (Cons x xs)
  obtain r1 s1 where b: "body x s = (r1, s1)" by (cases "body x s")
  then have e1: "R s s1" by (rule step)
  show ?case
  proof (cases r1)
    case None
    with Cons.prems b have "for_each body xs s1 = (r, s')" by simp
    then have "R s1 s'" by (rule Cons.IH)
    with e1 show ?thesis by (rule trans)
  next
    case (Some e)
    with Cons.prems b e1 show ?thesis by simp
  qed
qed

lemma for_each_cell_rel:
  assumes refl: "\<And>s. R s s" and trans: "\<And>a b c. R a b \<Longrightarrow> R b c \<Longrightarrow> R a c"
    and step: "\<And>x s r s'. body x s = Some (r, s') \<Longrightarrow> R s s'"
    and run: "for_each_cell body xs s = Some (r, s')"
  shows "R s s'"
  using run
proof (induction xs arbitrary: s)
  case Nil
  then show ?case by (simp add: refl)
next
  case (Cons x xs)
  from Cons.prems obtain r1 s1 where b: "body x s = Some (r1, s1)"
    by (auto split: option.splits)
  then have e1: "R s s1" by (rule step)
  show ?case
  proof (cases r1)
    case None
    with Cons.prems b have "for_each_cell body xs s1 = Some (r, s')" by simp
    then have "R s1 s'" by (rule Cons.IH)
    with e1 show ?thesis by (rule trans)
  next
    case (Some e)
    with Cons.prems b e1 show ?thesis by simp
  qed
qed

lemma run_cells_rel:
  assumes refl: "\<And>s. R s s" and trans: "\<And>a b c. R a b \<Longrightarrow> R b c \<Longrightarrow> R a c"
    and step: "\<And>c s r s'. c \<in> set cs \<Longrightarrow> c s = Some (r, s') \<Longrightarrow> R s s'"
    and run: "run_cells cs s = Some (r, s')"
  shows "R s s'"
  using step run
proof (induction cs arbitrary: s)
  case Nil
  then show ?case by (simp add: refl)
next
  case (Cons c cs)
  from Cons.prems(2) obtain r1 s1 where b: "c s = Some (r1, s1)"
    by (auto split: option.splits)
  have "c \<in> set (c # cs)" by simp
  then have e1: "R s s1" using b by (rule Cons.prems(1))
  show ?case
  proof (cases r1)
    case None
    with Cons.prems(2) b have "run_cells cs s1 = Some (r, s')" by simp
    moreover have "\<And>c s r s'. c \<in> set cs \<Longrightarrow> c s = Some (r, s') \<Longrightarrow> R s s'"
      using Cons.prems(1) by (meson list.set_intros(2))
    ultimately have "R s1 s'" using Cons.IH by blast
    with e1 show ?thesis by (rule trans)
  next
    case (Some e)
    with Cons.prems(2) b e1 show ?thesis by simp
  qed
qed

text \<open>The cells before the model is named.\<close>

lemma cell_install_prepares: "cell_install s = (r, s') \<Longrightarrow> prepares s s'"
  by (auto simp: cell_install_def cell_defs extends_def in_prep_def prepares_def)

lemma cell_sessions_prepares: "cell_sessions w s = (r, s') \<Longrightarrow> prepares s s'"
  by (auto simp: cell_sessions_def cell_defs extends_def in_prep_def prepares_def split: sum.splits)

lemma cell_download_prepares: "cell_download s = (r, s') \<Longrightarrow> prepares s s'"
  by (auto simp: cell_download_def cell_defs extends_def in_prep_def prepares_def)

lemma cell_role_bucket_prepares: "cell_role_bucket w s = (r, s') \<Longrightarrow> prepares s s'"
  by (auto simp: cell_role_bucket_def cell_defs extends_def in_prep_def prepares_def split: sum.splits)

lemma cell_upload_model_prepares: "cell_upload_model w s = (r, s') \<Longrightarrow> prepares s s'"
  by (auto simp: cell_upload_model_def cell_defs extends_def in_prep_def prepares_def split: sum.splits)

lemma cell_container_prepares: "cell_container w s = (r, s') \<Longrightarrow> prepares s s'"
  by (auto simp: cell_container_def cell_defs extends_def in_prep_def prepares_def split: sum.splits)

lemma cell_deploy_finished:
  assumes "cell_deploy w s = (None, s')"
  shows "log s' = log s @ [Call (DeployEndpoint (model_name s') (endpoint_name s'))]"
    and "model_name s' = model_name s"
    and "endpoint_name s' = resource_name_format ''Endpoint'' (now w (clock s))"
  using assms by (auto simp: cell_deploy_def cell_defs split: sum.splits)

lemma cell_autoscaling_finished:
  assumes "cell_autoscaling w s = (None, s')"
  shows "extends in_prep s s'"
    and "model_name s' = model_name s"
    and "endpoint_name s' = endpoint_name s"
    and "resource_id s' = ''endpoint/'' @ endpoint_name s @ ''/variant/AllTraffic''"
  using assms
  by (auto simp: cell_autoscaling_def cell_defs extends_def in_prep_def split: sum.splits)

lemma setup_finished:
  assumes "run_cells (setup_cells w) s = Some (None, s')"
  shows "filter is_deploy (calls_since s s') = [DeployEndpoint (model_name s') (endpoint_name s')]"
    and "model_name s' = resource_name_format ''Model'' (now w (clock s))"
    and "endpoint_name s' = resource_name_format ''Endpoint'' (now w (Suc (clock s)))"
    and "resource_id s' = ''endpoint/'' @ endpoint_name s' @ ''/variant/AllTraffic''"
proof -
  let ?A = "[lift cell_install, lift (cell_sessions w), lift cell_download, lift (cell_role_bucket w),
      lift (cell_upload_model w), lift (cell_container w)]"
  have split: "setup_cells w = ?A @ [lift (cell_model w), lift (cell_deploy w), lift (cell_autoscaling w)]"
    by (simp add: setup_cells_def)
  from assms obtain s1 where a: "run_cells ?A s = Some (None, s1)"
    and b: "run_cells [lift (cell_model w), lift (cell_deploy w), lift (cell_autoscaling w)] s1 = Some (None, s')"
    unfolding split run_cells_append by (auto split: option.splits)
  from b obtain s2 s3 where m: "cell_model w s1 = (None, s2)"
    and d: "cell_deploy w s2 = (None, s3)"
    and sc: "cell_autoscaling w s3 = (None, s')"
    by (auto simp: lift_def split: option.splits prod.splits)
  have "prepares s s1"
  proof (rule run_cells_rel [where R = prepares, OF _ _ _ a])
    fix c s r s'
    assume "c \<in> set ?A" and "c s = Some (r, s')"
    then show "prepares s s'"
      by (auto simp: lift_def
        dest: cell_install_prepares cell_sessions_prepares cell_download_prepares
          cell_role_bucket_prepares cell_upload_model_prepares cell_container_prepares)
  qed (simp_all add: prepares_trans)
  then have e1: "extends in_prep s s1" and c1: "clock s1 = clock s"
    by (simp_all add: prepares_def)
  from m have s2: "s2 = s1\<lparr>model_name := resource_name_format ''Model'' (now w (clock s1)),
                           clock := Suc (clock s1)\<rparr>"
    by (simp add: cell_model_def)
  then have e2: "extends in_prep s1 s2" by (simp add: extends_def)
  note df = cell_deploy_finished [OF d]
  note af = cell_autoscaling_finished [OF sc]
  have e3: "extends in_setup s2 s3" using d by (rule cell_deploy_setup)
  have names: "model_name s' = resource_name_format ''Model'' (now w (clock s))"
    "endpoint_name s' = resource_name_format ''Endpoint'' (now w (Suc (clock s)))"
    "resource_id s' = ''endpoint/'' @ endpoint_name s' @ ''/variant/AllTraffic''"
    using df af s2 c1 by simp_all
  have 12: "calls_since s s2 = calls_since s s1 @ calls_since s1 s2"
    using e1 e2 by (rule calls_since_trans)
  have e12: "extends in_prep s s2" using e1 e2 by (rule extends_trans)
  have 23: "calls_since s s3 = calls_since s s2 @ calls_since s2 s3"
    using e12 e3 by (rule calls_since_trans)
  have e13: "extends in_setup s s3"
    using extends_trans [OF _ e3, of s] e12 by (auto simp: extends_def list_all_iff in_prep_def in_setup_def)
  have 34: "calls_since s s' = calls_since s s3 @ calls_since s3 s'"
    using e13 af(1) by (rule calls_since_trans)
  have f12: "filter is_deploy (calls_since s s2) = []"
    using calls_of_since(2) [OF e12] by (auto simp: filter_empty_conv list_all_iff in_prep_def)
  have f23: "calls_since s2 s3 = [DeployEndpoint (model_name s3) (endpoint_name s3)]"
    using df(1) by (simp add: calls_since_def)
  have f34: "filter is_deploy (calls_since s3 s') = []"
    using calls_of_since(2) [OF af(1)] by (auto simp: filter_empty_conv list_all_iff in_prep_def)
  have "filter is_deploy (calls_since s s') = [DeployEndpoint (model_name s3) (endpoint_name s3)]"
    by (simp add: 34 23 f12 f23 f34)
  with af names show "filter is_deploy (calls_since s s') = [DeployEndpoint (model_name s') (endpoint_name s')]"
    and "model_name s' = resource_name_format ''Model'' (now w (clock s))"
    and "endpoint_name s' = resource_name_format ''Endpoint'' (now w (Suc (clock s)))"
    and "resource_id s' = ''endpoint/'' @ endpoint_name s' @ ''/variant/AllTraffic''"
    by simp_all
qed

subsection \<open>Multiple invocations\<close>

lemma for_each_append:
  "for_each body (xs @ ys) s =
     (case for_each body xs s of
        (Some e, s') \<Rightarrow> (Some e, s')
      | (None, s') \<Rightarrow> for_each body ys s')"
  by (induction xs arbitrary: s) (auto split: prod.splits option.splits)

lemma invoke_one_NoneD:
  assumes "invoke_one w i s = (None, s')"
  shows "\<exists>b l out. respond w (calls s) DefaultBucket = Inr b
           \<and> respond w (calls s + 1) (UploadData (input_path i) b (bucket_prefix @ ''/input'')) = Inr l
           \<and> respond w (calls s + 2) (PredictAsync l) = Inr out
           \<and> inferences s' = inferences s @ [(input_path i, out)]
           \<and> calls s' = calls s + 3
           \<and> reads_since s s' = []"
  using assms
  by (auto simp: invoke_one_def upload_file_def cell_defs reads_since_def split: sum.splits)

lemma invoke_upto:
  assumes "for_each (invoke_one w) [0..<n] s = (None, s')"
  shows "calls s' = calls s + 3 * n
       \<and> (\<exists>new. inferences s' = inferences s @ new \<and> length new = n
            \<and> (\<forall>i<n. \<exists>b l out. respond w (calls s + 3 * i) DefaultBucket = Inr b
                 \<and> respond w (calls s + 3 * i + 1)
                      (UploadData (input_path i) b (bucket_prefix @ ''/input'')) = Inr l
                 \<and> respond w (calls s + 3 * i + 2) (PredictAsync l) = Inr out
                 \<and> new ! i = (input_path i, out)))"
  using assms
proof (induction n arbitrary: s')
  case 0
  then show ?case by simp
next
  case (Suc n)
  from Suc.prems obtain s1 where a: "for_each (invoke_one w) [0..<n] s = (None, s1)"
    and b: "invoke_one w n s1 = (None, s')"
    by (auto simp: for_each_append split: prod.splits option.splits)
  from Suc.IH [OF a] obtain new where c1: "calls s1 = calls s + 3 * n"
    and i1: "inferences s1 = inferences s @ new" and l1: "length new = n"
    and each: "\<forall>i<n. \<exists>b l out. respond w (calls s + 3 * i) DefaultBucket = Inr b
                 \<and> respond w (calls s + 3 * i + 1)
                      (UploadData (input_path i) b (bucket_prefix @ ''/input'')) = Inr l
                 \<and> respond w (calls s + 3 * i + 2) (PredictAsync l) = Inr out
                 \<and> new ! i = (input_path i, out)"
    by blast
  from invoke_one_NoneD [OF b] obtain b' l out
    where r: "respond w (calls s1) DefaultBucket = Inr b'"
      "respond w (calls s1 + 1) (UploadData (input_path n) b' (bucket_prefix @ ''/input'')) = Inr l"
      "respond w (calls s1 + 2) (PredictAsync l) = Inr out"
      and i2: "inferences s' = inferences s1 @ [(input_path n, out)]"
      and c2: "calls s' = calls s1 + 3"
    by blast
  let ?new = "new @ [(input_path n, out)]"
  have "\<exists>b l out. respond w (calls s + 3 * i) DefaultBucket = Inr b
                 \<and> respond w (calls s + 3 * i + 1)
                      (UploadData (input_path i) b (bucket_prefix @ ''/input'')) = Inr l
                 \<and> respond w (calls s + 3 * i + 2) (PredictAsync l) = Inr out
                 \<and> ?new ! i = (input_path i, out)" if "i < Suc n" for i
  proof (cases "i < n")
    case True
    with each l1 show ?thesis by (simp add: nth_append)
  next
    case False
    with that have "i = n" by simp
    with r c1 l1 show ?thesis by (simp add: nth_append)
  qed
  then show ?case
    using c1 c2 i1 i2 l1 by (intro conjI exI [of _ ?new]) simp_all
qed

lemma reads_since_trans:
  assumes "extends P s s1" and "extends Q s1 s2"
  shows "reads_since s s2 = reads_since s s1 @ reads_since s1 s2"
proof -
  from assms(1) obtain es where 1: "log s1 = log s @ es" by (rule extendsE)
  from assms(2) obtain fs where 2: "log s2 = log s1 @ fs" by (rule extendsE)
  show ?thesis
    by (simp add: reads_since_def 1 2)
qed

lemma reads_since_self [simp]: "reads_since s s = []"
  by (simp add: reads_since_def)

lemma filter_rounds [simp]:
  "filter is_read (calls_of (concat (replicate n (Call (read_call u) # wait_round))))
     = replicate n (read_call u)"
  by (simp add: read_call_def)

lemma show_one_NoneD:
  assumes "show_one w p s = Some (None, s')"
  shows "\<exists>n. reads_since s s' = replicate (Suc n) (the (poll_target w (snd p)))
           \<and> poll_target w (snd p) \<noteq> None
           \<and> inferences s' = inferences s"
proof -
  let ?s = "s\<lparr>input_file := fst p, output_location := snd p\<rparr>"
  from assms obtain out t where go: "get_output w (snd p) ?s = Some (Inr out, t)"
    and s': "s' = emit [Print (''Input File: '' @ input_file t @ '', Output: '' @ out)]
                   (t\<lparr>output_val := out\<rparr>)"
    by (auto simp: show_one_def Let_def split: option.splits sum.splits)
  from get_output_reads [OF go] obtain n where
    l: "log t = log s @ concat (replicate n (Call (the (poll_target w (snd p))) # wait_round))
                  @ [Call (the (poll_target w (snd p)))]"
    and t: "poll_target w (snd p) \<noteq> None" and i: "inferences t = inferences s"
    by auto
  from t obtain u where u: "poll_target w (snd p) = Some (read_call u)"
    by (auto simp: poll_target_def split: sum.splits)
  have "reads_since s s' = replicate (Suc n) (read_call u)"
    by (simp add: reads_since_def s' l u replicate_append_same) (simp add: read_call_def)
  with u i s' show ?thesis by auto
qed

lemma result_loop_reads:
  assumes "for_each_cell (show_one w) ps s = Some (None, s')"
  shows "inferences s' = inferences s
       \<and> (\<exists>ns. length ns = length ps
             \<and> map Some (reads_since s s')
                 = concat (map2 (\<lambda>n p. replicate (Suc n) (poll_target w (snd p))) ns ps))"
  using assms
proof (induction ps arbitrary: s)
  case Nil
  then show ?case by simp
next
  case (Cons p ps)
  from Cons.prems obtain s1 where a: "show_one w p s = Some (None, s1)"
    and b: "for_each_cell (show_one w) ps s1 = Some (None, s')"
    by (auto split: option.splits)
  from show_one_NoneD [OF a] obtain n
    where r1: "reads_since s s1 = replicate (Suc n) (the (poll_target w (snd p)))"
      and t: "poll_target w (snd p) \<noteq> None" and i1: "inferences s1 = inferences s"
    by blast
  from Cons.IH [OF b] obtain ns where i2: "inferences s' = inferences s1"
    and ln: "length ns = length ps"
    and r2: "map Some (reads_since s1 s')
               = concat (map2 (\<lambda>n p. replicate (Suc n) (poll_target w (snd p))) ns ps)"
    by blast
  have "extends in_use s s1" using a by (rule show_one_use)
  moreover have "extends in_use s1 s'"
    using b by (rule for_each_cell_extends [rotated]) (rule show_one_use)
  ultimately have "reads_since s s' = reads_since s s1 @ reads_since s1 s'"
    by (rule reads_since_trans)
  with r1 r2 t have "map Some (reads_since s s')
      = concat (map2 (\<lambda>n p. replicate (Suc n) (poll_target w (snd p))) (n # ns) (p # ps))"
    by auto
  with ln i1 i2 show ?case
    by (intro conjI exI [of _ "n # ns"]) simp_all
qed

lemma invoke_reads:
  assumes "for_each (invoke_one w) xs s = (None, s')"
  shows "reads_since s s' = []"
  using assms
proof (induction xs arbitrary: s)
  case Nil
  then show ?case by simp
next
  case (Cons x xs)
  from Cons.prems obtain s1 where a: "invoke_one w x s = (None, s1)"
    and b: "for_each (invoke_one w) xs s1 = (None, s')"
    by (auto split: prod.splits option.splits)
  have "extends in_use s s1" using a by (rule invoke_one_use)
  moreover have "extends in_use s1 s'"
    using b by (rule for_each_extends [rotated]) (rule invoke_one_use)
  ultimately have "reads_since s s' = reads_since s s1 @ reads_since s1 s'"
    by (rule reads_since_trans)
  with invoke_one_NoneD [OF a] Cons.IH [OF b] show ?case by auto
qed

lemma invoke_one_finishes:
  assumes "respond w (calls s) DefaultBucket = Inr b"
    and "respond w (calls s + 1) (UploadData (input_path i) b (bucket_prefix @ ''/input'')) = Inr l"
    and "respond w (calls s + 2) (PredictAsync l) = Inr out"
  shows "\<exists>s'. invoke_one w i s = (None, s')"
  using assms by (simp add: invoke_one_def upload_file_def cell_defs)

lemma invoke_upto_finishes:
  assumes "\<forall>i<n. \<exists>b l out. respond w (calls s + 3 * i) DefaultBucket = Inr b
                 \<and> respond w (calls s + 3 * i + 1)
                      (UploadData (input_path i) b (bucket_prefix @ ''/input'')) = Inr l
                 \<and> respond w (calls s + 3 * i + 2) (PredictAsync l) = Inr out"
  shows "\<exists>s'. for_each (invoke_one w) [0..<n] s = (None, s')"
  using assms
proof (induction n)
  case 0
  show ?case by simp
next
  case (Suc n)
  then obtain s1 where a: "for_each (invoke_one w) [0..<n] s = (None, s1)" by auto
  from invoke_upto [OF a] have c: "calls s1 = calls s + 3 * n" by blast
  from Suc.prems obtain b l out where "respond w (calls s + 3 * n) DefaultBucket = Inr b"
    "respond w (calls s + 3 * n + 1) (UploadData (input_path n) b (bucket_prefix @ ''/input'')) = Inr l"
    "respond w (calls s + 3 * n + 2) (PredictAsync l) = Inr out"
    by blast
  then have "\<exists>s'. invoke_one w n s1 = (None, s')"
    unfolding c [symmetric] by (rule invoke_one_finishes)
  with a show ?case by (auto simp: for_each_append)
qed

text \<open>
  Claim C5. When each of the 25 rounds of the invocation loop gets its three answers (the
  default bucket, the upload, the invocation), the loop finishes with exactly 25 pairs in
  \<open>inferences\<close>, and pair \<open>i\<close> is the input path \<open>input/test_point_i.libsvm\<close> with the output
  location that invocation \<open>i\<close> of \<open>predict_async\<close> returned. The cell then runs the result loop
  over these pairs, whether or not that loop ever returns. Whenever the result loop has gone
  through its first \<open>k\<close> pairs, it has left \<open>inferences\<close> as it was and its reads have gone
  through the output locations of these \<open>k\<close> pairs in their order, one or more reads for each;
  with \<open>k = 25\<close> this is the finished cell.
\<close>


theorem multiple_invocations:
  assumes "\<forall>i<25. \<exists>b l out.
        respond w (calls s + 3 * i) DefaultBucket = Inr b
      \<and> respond w (calls s + 3 * i + 1)
           (UploadData (''input/test_point_'' @ str_nat i @ ''.libsvm'') b
              ''DEMO-async-inference/input'') = Inr l
      \<and> respond w (calls s + 3 * i + 2) (PredictAsync l) = Inr out"
  shows "fst (invoke_loop w s) = None
       \<and> length (inferences (snd (invoke_loop w s))) = 25
       \<and> (\<forall>i<25. \<exists>b l out.
              respond w (calls s + 3 * i) DefaultBucket = Inr b
            \<and> respond w (calls s + 3 * i + 1)
                 (UploadData (''input/test_point_'' @ str_nat i @ ''.libsvm'') b
                    ''DEMO-async-inference/input'') = Inr l
            \<and> respond w (calls s + 3 * i + 2) (PredictAsync l) = Inr out
            \<and> inferences (snd (invoke_loop w s)) ! i
                = (''input/test_point_'' @ str_nat i @ ''.libsvm'', out))
       \<and> cell_multiple w s
           = for_each_cell (show_one w) (inferences (snd (invoke_loop w s))) (snd (invoke_loop w s))
       \<and> (\<forall>k t. for_each_cell (show_one w) (take k (inferences (snd (invoke_loop w s))))
                    (snd (invoke_loop w s)) = Some (None, t) \<longrightarrow>
              inferences t = inferences (snd (invoke_loop w s))
            \<and> (\<exists>ns. length ns = min k 25
                 \<and> map Some (reads_since s t)
                     = concat (map2 (\<lambda>n p. replicate (Suc n) (poll_target w (snd p))) ns
                                 (take k (inferences (snd (invoke_loop w s)))))))"
proof -
  let ?s0 = "s\<lparr>inferences := []\<rparr>"
  from assms have "\<forall>i<25. \<exists>b l out.
        respond w (calls ?s0 + 3 * i) DefaultBucket = Inr b
      \<and> respond w (calls ?s0 + 3 * i + 1)
           (UploadData (input_path i) b (bucket_prefix @ ''/input'')) = Inr l
      \<and> respond w (calls ?s0 + 3 * i + 2) (PredictAsync l) = Inr out"
    by (simp add: input_path_def bucket_prefix_def)
  then have "\<exists>s'. for_each (invoke_one w) [0..<25] ?s0 = (None, s')"
    by (rule invoke_upto_finishes)
  then obtain s1 where a: "for_each (invoke_one w) [0..<25] ?s0 = (None, s1)" ..
  then have il: "invoke_loop w s = (None, s1)" by (simp add: invoke_loop_def)
  from invoke_upto [OF a] obtain new where i1: "inferences s1 = new" and l1: "length new = 25"
    and each: "\<forall>i<25. \<exists>b l out. respond w (calls s + 3 * i) DefaultBucket = Inr b
                 \<and> respond w (calls s + 3 * i + 1)
                      (UploadData (input_path i) b (bucket_prefix @ ''/input'')) = Inr l
                 \<and> respond w (calls s + 3 * i + 2) (PredictAsync l) = Inr out
                 \<and> new ! i = (input_path i, out)"
    by auto
  have e1: "extends in_use ?s0 s1"
    using a by (rule for_each_extends [rotated]) (rule invoke_one_use)
  have 1: "fst (invoke_loop w s) = None" by (simp add: il)
  have 2: "length (inferences (snd (invoke_loop w s))) = 25" by (simp add: il i1 l1)
  have 3: "\<forall>i<25. \<exists>b l out.
              respond w (calls s + 3 * i) DefaultBucket = Inr b
            \<and> respond w (calls s + 3 * i + 1)
                 (UploadData (''input/test_point_'' @ str_nat i @ ''.libsvm'') b
                    ''DEMO-async-inference/input'') = Inr l
            \<and> respond w (calls s + 3 * i + 2) (PredictAsync l) = Inr out
            \<and> inferences (snd (invoke_loop w s)) ! i
                = (''input/test_point_'' @ str_nat i @ ''.libsvm'', out)"
    using each by (simp add: il i1 input_path_def bucket_prefix_def)
  have 4: "cell_multiple w s
           = for_each_cell (show_one w) (inferences (snd (invoke_loop w s))) (snd (invoke_loop w s))"
    by (simp add: cell_multiple_def il result_loop_def)
  have 5: "inferences t = inferences (snd (invoke_loop w s))
            \<and> (\<exists>ns. length ns = min k 25
                 \<and> map Some (reads_since s t)
                     = concat (map2 (\<lambda>n p. replicate (Suc n) (poll_target w (snd p))) ns
                                 (take k (inferences (snd (invoke_loop w s))))))"
    if "for_each_cell (show_one w) (take k (inferences (snd (invoke_loop w s))))
                    (snd (invoke_loop w s)) = Some (None, t)" for k t
  proof -
    from that have b: "for_each_cell (show_one w) (take k (inferences s1)) s1 = Some (None, t)"
      by (simp add: il)
    from result_loop_reads [OF b] obtain ns where i2: "inferences t = inferences s1"
      and ln: "length ns = length (take k (inferences s1))"
      and r2: "map Some (reads_since s1 t)
              = concat (map2 (\<lambda>n p. replicate (Suc n) (poll_target w (snd p))) ns (take k (inferences s1)))"
      by blast
    have e2: "extends in_use s1 t"
      using b by (rule for_each_cell_extends [rotated]) (rule show_one_use)
    have "reads_since ?s0 t = reads_since ?s0 s1 @ reads_since s1 t"
      using e1 e2 by (rule reads_since_trans)
    with invoke_reads [OF a] have "reads_since ?s0 t = reads_since s1 t" by simp
    moreover have "reads_since ?s0 t = reads_since s t" by (simp add: reads_since_def)
    ultimately have r: "reads_since s t = reads_since s1 t" by simp
    from ln have "length ns = min k 25" by (simp add: i1 l1 min.commute)
    with i2 r r2 show ?thesis
      by (auto simp: il)
  qed
  from 1 2 3 4 5 show ?thesis by blast
qed



text \<open>In the concrete world every cell finishes.\<close>

lemma demo_invoke_one: "\<exists>s'. invoke_one demo_env i s = (None, s')"
  by (simp add: invoke_one_def upload_file_def cell_defs demo_env_def demo_respond_def)

lemma demo_invoke: "\<exists>s'. for_each (invoke_one demo_env) xs s = (None, s')"
proof (induction xs arbitrary: s)
  case Nil
  show ?case by simp
next
  case (Cons x xs)
  from demo_invoke_one obtain s1 where "invoke_one demo_env x s = (None, s1)" by blast
  with Cons.IH [of s1] show ?case by simp
qed

lemma demo_get_output: "\<exists>out s'. get_output demo_env location s = Some (Inr out, s')"
proof -
  obtain u where u: "urlparse demo_env location = Inr u"
    by (simp add: demo_env_def s3_urlparse_def)
  show ?thesis
  proof (cases "even (calls s)")
    case True
    have "get_output_loop demo_env u s = Some (Inr ''0.28'', called (read_call u) (waited 1 u s))"
      using True
      by (intro get_output_loop_run)
         (simp_all add: demo_env_def demo_respond_def read_call_def no_such_key_def)
    with u show ?thesis by (simp add: get_output_def)
  next
    case False
    have "get_output_loop demo_env u s = Some (Inr ''0.28'', called (read_call u) (waited 0 u s))"
      using False
      by (intro get_output_loop_run)
         (simp_all add: demo_env_def demo_respond_def read_call_def no_such_key_def)
    with u show ?thesis by (simp add: get_output_def)
  qed
qed

lemma demo_show_one: "\<exists>s'. show_one demo_env p s = Some (None, s')"
proof -
  from demo_get_output obtain out t where
    "get_output demo_env (snd p) (s\<lparr>input_file := fst p, output_location := snd p\<rparr>) = Some (Inr out, t)"
    by blast
  then show ?thesis by (simp add: show_one_def Let_def)
qed

lemma demo_results: "\<exists>s'. for_each_cell (show_one demo_env) ps s = Some (None, s')"
proof (induction ps arbitrary: s)
  case Nil
  show ?case by simp
next
  case (Cons p ps)
  from demo_show_one obtain s1 where "show_one demo_env p s = Some (None, s1)" by blast
  with Cons.IH [of s1] show ?case by simp
qed

lemma demo_cell_multiple: "\<exists>s'. cell_multiple demo_env s = Some (None, s')"
proof -
  from demo_invoke obtain s1 where "invoke_loop demo_env s = (None, s1)"
    unfolding invoke_loop_def by blast
  moreover from demo_results obtain s2 where "result_loop demo_env s1 = Some (None, s2)"
    unfolding result_loop_def by blast
  ultimately show ?thesis by (simp add: cell_multiple_def)
qed

lemma str_nat_23: "str_nat 23 = ''23''"
  by (simp add: str_nat.simps)

lemma str_nat_7: "str_nat 7 = ''7''"
  by (simp add: str_nat.simps)

lemma demo_answers:
  "\<forall>i<25. \<exists>b l out.
        respond demo_env (calls nb0 + 3 * i) DefaultBucket = Inr b
      \<and> respond demo_env (calls nb0 + 3 * i + 1)
           (UploadData (''input/test_point_'' @ str_nat i @ ''.libsvm'') b
              ''DEMO-async-inference/input'') = Inr l
      \<and> respond demo_env (calls nb0 + 3 * i + 2) (PredictAsync l) = Inr out"
  by (simp add: demo_env_def demo_respond_def)

lemma waiting_answers:
  "\<forall>i<25. \<exists>b l out.
        respond waiting_env (calls nb0 + 3 * i) DefaultBucket = Inr b
      \<and> respond waiting_env (calls nb0 + 3 * i + 1)
           (UploadData (''input/test_point_'' @ str_nat i @ ''.libsvm'') b
              ''DEMO-async-inference/input'') = Inr l
      \<and> respond waiting_env (calls nb0 + 3 * i + 2) (PredictAsync l) = Inr out"
  by (simp add: waiting_env_def demo_respond_def)

lemma waiting_get_output: "get_output waiting_env location s = None"
proof -
  obtain u where u: "urlparse waiting_env location = Inr u"
    by (simp add: waiting_env_def s3_urlparse_def)
  have "get_output_loop waiting_env u s = None"
    unfolding get_output_loop_None_iff
    by (simp add: waiting_env_def read_call_def no_such_key_def)
  with u show ?thesis by (simp add: get_output_def)
qed

lemma waiting_results:
  assumes "ps \<noteq> []"
  shows "for_each_cell (show_one waiting_env) ps s = None"
  using assms by (cases ps) (simp_all add: show_one_def Let_def waiting_get_output)

theorem multiple_invocations_witness:
  "fst (invoke_loop demo_env nb0) = None
   \<and> length (inferences (snd (invoke_loop demo_env nb0))) = 25
   \<and> inferences (snd (invoke_loop demo_env nb0)) ! 7
       = (''input/test_point_7.libsvm'', ''s3://demo-bucket/output/23.out'')
   \<and> (\<exists>t. cell_multiple demo_env nb0 = Some (None, t)
          \<and> inferences t = inferences (snd (invoke_loop demo_env nb0)))
   \<and> length (inferences (snd (invoke_loop waiting_env nb0))) = 25
   \<and> cell_multiple waiting_env nb0 = None"
proof -
  note demo = multiple_invocations [OF demo_answers]
  note waiting = multiple_invocations [OF waiting_answers]
  let ?s1 = "snd (invoke_loop demo_env nb0)"
  have 1: "fst (invoke_loop demo_env nb0) = None" using demo by (rule conjunct1)
  have 2: "length (inferences ?s1) = 25" using demo by blast
  have "(7::nat) < 25" by simp
  note seven = conjunct1 [OF conjunct2 [OF conjunct2 [OF demo]], rule_format, OF this]
  then have 3: "inferences ?s1 ! 7 = (''input/test_point_7.libsvm'', ''s3://demo-bucket/output/23.out'')"
    by (auto simp: demo_env_def demo_respond_def nb0_def str_nat_23 str_nat_7)
  have eq: "cell_multiple demo_env nb0 = for_each_cell (show_one demo_env) (inferences ?s1) ?s1"
    using demo by blast
  from demo_results obtain t
    where t: "for_each_cell (show_one demo_env) (inferences ?s1) ?s1 = Some (None, t)" by blast
  then have "for_each_cell (show_one demo_env) (take 25 (inferences ?s1)) ?s1 = Some (None, t)"
    using 2 by simp
  with demo have "inferences t = inferences ?s1" by blast
  with eq t have 4: "\<exists>t. cell_multiple demo_env nb0 = Some (None, t)
          \<and> inferences t = inferences ?s1" by simp
  have 5: "length (inferences (snd (invoke_loop waiting_env nb0))) = 25" using waiting by blast
  then have "inferences (snd (invoke_loop waiting_env nb0)) \<noteq> []" by auto
  then have "for_each_cell (show_one waiting_env) (inferences (snd (invoke_loop waiting_env nb0)))
               (snd (invoke_loop waiting_env nb0)) = None"
    by (rule waiting_results)
  moreover have "cell_multiple waiting_env nb0
      = for_each_cell (show_one waiting_env) (inferences (snd (invoke_loop waiting_env nb0)))
          (snd (invoke_loop waiting_env nb0))"
    using waiting by blast
  ultimately have 6: "cell_multiple waiting_env nb0 = None" by simp
  from 1 2 3 4 5 6 show ?thesis by blast
qed

subsection \<open>The whole notebook\<close>

lemma run_cells_lift:
  assumes "\<forall>c\<in>set cs. \<exists>a. c = lift a"
  shows "run_cells cs s \<noteq> None"
  using assms
proof (induction cs arbitrary: s)
  case Nil
  show ?case by simp
next
  case (Cons c cs)
  then obtain a where "c = lift a" by auto
  with Cons show ?case
    by (cases "a s") (auto simp: lift_def split: option.splits)
qed

lemma never_ending_run:
  assumes "run_notebook w = None"
  shows "\<exists>s1. run_cells (setup_cells w) nb0 = Some (None, s1) \<and> run_cells (use_cells w) s1 = None"
proof -
  have "run_cells (setup_cells w) nb0 \<noteq> None"
    by (rule run_cells_lift) (auto simp: setup_cells_def)
  then obtain r1 s1 where 1: "run_cells (setup_cells w) nb0 = Some (r1, s1)" by auto
  from assms have run: "run_cells (setup_cells w @ use_cells w @ cleanup_cells w) nb0 = None"
    by (simp add: run_notebook_def notebook_def)
  with 1 have r1: "r1 = None" and 2: "run_cells (use_cells w @ cleanup_cells w) s1 = None"
    unfolding run_cells_append [of "setup_cells w"] by (auto split: option.splits)
  have "run_cells (use_cells w) s1 = None"
  proof (rule ccontr)
    assume "run_cells (use_cells w) s1 \<noteq> None"
    then obtain r2 s2 where 3: "run_cells (use_cells w) s1 = Some (r2, s2)" by auto
    have "run_cells (cleanup_cells w) s2 \<noteq> None"
      by (rule run_cells_lift) (auto simp: cleanup_cells_def)
    with 2 3 show False
      unfolding run_cells_append [of "use_cells w"] by (auto split: option.splits)
  qed
  with 1 r1 show ?thesis by simp
qed


lemma cell_upload_input_finished:
  assumes "cell_upload_input w s = (None, s')"
  shows "keeps s s'" and "filter is_invoke (calls_since s s') = []"
  using assms
  by (auto simp: cell_upload_input_def upload_file_def cell_defs keeps_def calls_since_def
      split: sum.splits)

lemma cell_predict_finished:
  assumes "cell_predict w s = (None, s')"
  shows "keeps s s'" and "length (filter is_invoke (calls_since s s')) = 1"
  using assms
  by (auto simp: cell_predict_def cell_defs keeps_def calls_since_def split: sum.splits)

lemma get_output_finished:
  assumes "get_output w location s = Some (r, s')"
  shows "keeps s s'" and "filter is_invoke (calls_since s s') = []"
proof -
  have "keeps s s' \<and> filter is_invoke (calls_since s s') = []"
  proof (cases "urlparse w location")
    case (Inl e)
    with assms show ?thesis by (simp add: get_output_def)
  next
    case (Inr u)
    with assms have "get_output_loop w u s = Some (r, s')" by (simp add: get_output_def)
    from get_output_loop_SomeD [OF this] obtain n
      where s': "s' = called (read_call u) (waited n u s)" by blast
    show ?thesis
      by (simp add: s' waited_eq called_def keeps_def calls_since_def read_call_def)
  qed
  then show "keeps s s'" and "filter is_invoke (calls_since s s') = []" by simp_all
qed

lemma cell_output_finished:
  assumes "cell_output w s = Some (None, s')"
  shows "keeps s s'" and "filter is_invoke (calls_since s s') = []"
proof -
  from assms obtain out t where go: "get_output w (output_location s) s = Some (Inr out, t)"
    and s': "s' = emit [Print (''Output: '' @ out)] (t\<lparr>output_val := out\<rparr>)"
    by (auto simp: cell_output_def split: option.splits sum.splits)
  note g = get_output_finished [OF go]
  from get_output_use [OF go] obtain es where "log t = log s @ es" by (rule extendsE)
  with g show "keeps s s'" and "filter is_invoke (calls_since s s') = []"
    by (simp_all add: s' keeps_def calls_since_def emit_def)
qed

lemma show_one_finished:
  assumes "show_one w p s = Some (None, s')"
  shows "keeps s s'" and "filter is_invoke (calls_since s s') = []"
proof -
  let ?s = "s\<lparr>input_file := fst p, output_location := snd p\<rparr>"
  from assms obtain out t where go: "get_output w (snd p) ?s = Some (Inr out, t)"
    and s': "s' = emit [Print (''Input File: '' @ input_file t @ '', Output: '' @ out)]
                   (t\<lparr>output_val := out\<rparr>)"
    by (auto simp: show_one_def Let_def split: option.splits sum.splits)
  note g = get_output_finished [OF go]
  from get_output_use [OF go] obtain es where "log t = log s @ es" by (rule extendsE) simp
  with g show "keeps s s'" and "filter is_invoke (calls_since s s') = []"
    by (simp_all add: s' keeps_def calls_since_def emit_def)
qed

lemma invoke_one_finished:
  assumes "invoke_one w i s = (None, s')"
  shows "keeps s s'" and "length (filter is_invoke (calls_since s s')) = 1"
  using assms
  by (auto simp: invoke_one_def upload_file_def cell_defs keeps_def calls_since_def
      split: sum.splits)

lemma invoke_finished:
  assumes "for_each (invoke_one w) xs s = (None, s')"
  shows "keeps s s' \<and> length (filter is_invoke (calls_since s s')) = length xs"
  using assms
proof (induction xs arbitrary: s)
  case Nil
  then show ?case by simp
next
  case (Cons x xs)
  from Cons.prems obtain s1 where a: "invoke_one w x s = (None, s1)"
    and b: "for_each (invoke_one w) xs s1 = (None, s')"
    by (auto split: prod.splits option.splits)
  have "extends in_use s s1" using a by (rule invoke_one_use)
  moreover have "extends in_use s1 s'"
    using b by (rule for_each_extends [rotated]) (rule invoke_one_use)
  ultimately have "calls_since s s' = calls_since s s1 @ calls_since s1 s'"
    by (rule calls_since_trans)
  with invoke_one_finished [OF a] Cons.IH [OF b] show ?case
    by (auto intro: keeps_trans)
qed

lemma results_finished:
  assumes "for_each_cell (show_one w) ps s = Some (None, s')"
  shows "keeps s s' \<and> filter is_invoke (calls_since s s') = []"
  using assms
proof (induction ps arbitrary: s)
  case Nil
  then show ?case by simp
next
  case (Cons p ps)
  from Cons.prems obtain s1 where a: "show_one w p s = Some (None, s1)"
    and b: "for_each_cell (show_one w) ps s1 = Some (None, s')"
    by (auto split: option.splits)
  have "extends in_use s s1" using a by (rule show_one_use)
  moreover have "extends in_use s1 s'"
    using b by (rule for_each_cell_extends [rotated]) (rule show_one_use)
  ultimately have "calls_since s s' = calls_since s s1 @ calls_since s1 s'"
    by (rule calls_since_trans)
  with show_one_finished [OF a] Cons.IH [OF b] show ?case
    by (auto intro: keeps_trans)
qed

lemma cell_multiple_finished:
  assumes "cell_multiple w s = Some (None, s')"
  shows "keeps s s'" and "length (filter is_invoke (calls_since s s')) = 25"
proof -
  let ?s0 = "s\<lparr>inferences := []\<rparr>"
  from assms obtain s1 where a: "for_each (invoke_one w) [0..<25] ?s0 = (None, s1)"
    and b: "for_each_cell (show_one w) (inferences s1) s1 = Some (None, s')"
    by (auto simp: cell_multiple_def invoke_loop_def result_loop_def split: prod.splits option.splits)
  have e1: "extends in_use ?s0 s1"
    using a by (rule for_each_extends [rotated]) (rule invoke_one_use)
  have e2: "extends in_use s1 s'"
    using b by (rule for_each_cell_extends [rotated]) (rule show_one_use)
  have "calls_since ?s0 s' = calls_since ?s0 s1 @ calls_since s1 s'"
    using e1 e2 by (rule calls_since_trans)
  moreover have "calls_since ?s0 s' = calls_since s s'" by (simp add: calls_since_def)
  moreover have "keeps s ?s0" by (simp add: keeps_def)
  ultimately show "keeps s s'" and "length (filter is_invoke (calls_since s s')) = 25"
    using invoke_finished [OF a] results_finished [OF b]
    by (auto intro: keeps_trans)
qed

lemma use_finished:
  assumes "run_cells (use_cells w) s = Some (None, s')"
  shows "keeps s s'" and "length (filter is_invoke (calls_since s s')) = 26"
proof -
  from assms obtain s1 s2 s3 where 1: "cell_upload_input w s = (None, s1)"
    and 2: "cell_predict w s1 = (None, s2)"
    and 3: "cell_output w s2 = Some (None, s3)"
    and 4: "cell_multiple w s3 = Some (None, s')"
    by (auto simp: use_cells_def lift_def split: option.splits prod.splits)
  have e1: "extends in_use s s1" using 1 by (rule cell_upload_input_use)
  have e2: "extends in_use s1 s2" using 2 by (rule cell_predict_use)
  have e3: "extends in_use s2 s3" using 3 by (rule cell_output_use)
  have e4: "extends in_use s3 s'" using 4 by (rule cell_multiple_use)
  have e12: "extends in_use s s2" using e1 e2 by (rule extends_trans)
  have e13: "extends in_use s s3" using e12 e3 by (rule extends_trans)
  have c: "calls_since s s' = calls_since s s1 @ calls_since s1 s2 @ calls_since s2 s3 @ calls_since s3 s'"
    using calls_since_trans [OF e1 e2] calls_since_trans [OF e12 e3] calls_since_trans [OF e13 e4]
    by simp
  note f1 = cell_upload_input_finished [OF 1]
  note f2 = cell_predict_finished [OF 2]
  note f3 = cell_output_finished [OF 3]
  note f4 = cell_multiple_finished [OF 4]
  show "keeps s s'"
    using f1(1) f2(1) f3(1) f4(1) by (blast intro: keeps_trans)
  show "length (filter is_invoke (calls_since s s')) = 26"
    using f1(2) f2(2) f3(2) f4(2) by (simp add: c)
qed

lemma cleanup_finished:
  assumes "run_cells (cleanup_cells w) s = Some (None, s')"
  shows "keeps s s'"
    and "calls_since s s' = [DeregisterScalableTarget (resource_id s), DeleteEndpoint (endpoint_name s)]"
    and "extends is_cleanup s s'"
  using assms
  by (auto simp: cleanup_cells_def cell_deregister_def cell_delete_def lift_def cell_defs
      keeps_def calls_since_def extends_def split: sum.splits)

lemma finished_run:
  assumes "run_notebook w = Some (None, s)"
  shows "\<exists>pre use.
           calls_of (log s) = pre @ use
               @ [DeregisterScalableTarget (resource_id s), DeleteEndpoint (endpoint_name s)]
         \<and> list_all in_setup pre
         \<and> filter is_deploy pre = [DeployEndpoint (model_name s) (endpoint_name s)]
         \<and> list_all in_use use
         \<and> length (filter is_invoke use) = 26
         \<and> model_name s = resource_name_format ''Model'' (now w 0)
         \<and> endpoint_name s = resource_name_format ''Endpoint'' (now w 1)
         \<and> resource_id s = ''endpoint/'' @ endpoint_name s @ ''/variant/AllTraffic''"
proof -
  from assms have run: "run_cells (setup_cells w @ use_cells w @ cleanup_cells w) nb0 = Some (None, s)"
    by (simp add: run_notebook_def notebook_def)
  then obtain s1 where 1: "run_cells (setup_cells w) nb0 = Some (None, s1)"
    and run2: "run_cells (use_cells w @ cleanup_cells w) s1 = Some (None, s)"
    unfolding run_cells_append [of "setup_cells w"] by (auto split: option.splits)
  from run2 obtain s2 where 2: "run_cells (use_cells w) s1 = Some (None, s2)"
    and 3: "run_cells (cleanup_cells w) s2 = Some (None, s)"
    unfolding run_cells_append [of "use_cells w"] by (auto split: option.splits)
  note sf = setup_finished [OF 1]
  note uf = use_finished [OF 2]
  note cf = cleanup_finished [OF 3]
  have e1: "extends in_setup nb0 s1" using 1 by (rule setup_cells_setup)
  have e2: "extends in_use s1 s2" using 2 by (rule use_cells_use)
  have names: "model_name s = model_name s1" "endpoint_name s = endpoint_name s1"
    "resource_id s = resource_id s1" "resource_id s2 = resource_id s1"
    "endpoint_name s2 = endpoint_name s1"
    using uf(1) cf(1) by (simp_all add: keeps_def)
  have l1: "calls_of (log s1) = calls_since nb0 s1"
    using calls_of_since(1) [OF e1] by (simp add: nb0_def)
  have l2: "calls_of (log s2) = calls_of (log s1) @ calls_since s1 s2"
    using e2 by (rule calls_of_since(1))
  have l3: "calls_of (log s) = calls_of (log s2) @ calls_since s2 s"
    using cf(3) by (rule calls_of_since(1))
  have "calls_of (log s) = calls_since nb0 s1 @ calls_since s1 s2
               @ [DeregisterScalableTarget (resource_id s), DeleteEndpoint (endpoint_name s)]"
    by (simp add: l3 l2 l1 cf(2) names)
  moreover have "list_all in_setup (calls_since nb0 s1)" using e1 by (rule calls_of_since(2))
  moreover have "filter is_deploy (calls_since nb0 s1) = [DeployEndpoint (model_name s) (endpoint_name s)]"
    using sf(1) by (simp add: names)
  moreover have "list_all in_use (calls_since s1 s2)" using e2 by (rule calls_of_since(2))
  moreover have "model_name s = resource_name_format ''Model'' (now w 0)"
    "endpoint_name s = resource_name_format ''Endpoint'' (now w 1)"
    "resource_id s = ''endpoint/'' @ endpoint_name s @ ''/variant/AllTraffic''"
    using sf(2-4) by (simp_all add: names nb0_def)
  ultimately show ?thesis
    using uf(2) by blast
qed

text \<open>
  Claim C7. The remote calls of the notebook come in a fixed order. A run that reaches the
  end of the notebook has made, in this order: the calls of the set-up, with exactly one
  deploy among them and no invocation or clean-up; the calls that use the endpoint, with 26
  invocations (\<open>predict_async\<close>) among them and no creating call (model upload, deploy,
  registering the scalable target, the scaling policy) or clean-up; then the deregistration of
  the scalable target and last the deletion of the endpoint, which is the endpoint that was
  deployed. In every run that ends, by reaching the last cell or by an exception: before an
  invocation the endpoint has been deployed; after a clean-up call there are only clean-up
  calls; and before the endpoint is deleted the scalable target has been deregistered. A run
  that never ends has finished the set-up cells, deploy among them, and is held in a cell that
  uses the endpoint: it reaches no clean-up.
\<close>


theorem workflow_order:
  "(\<forall>s. run_notebook w = Some (None, s) \<longrightarrow>
        (\<exists>pre use.
             calls_of (log s) = pre @ use
                 @ [DeregisterScalableTarget (resource_id s), DeleteEndpoint (endpoint_name s)]
           \<and> list_all in_setup pre
           \<and> filter is_deploy pre = [DeployEndpoint (model_name s) (endpoint_name s)]
           \<and> list_all in_use use
           \<and> length (filter is_invoke use) = 26
           \<and> model_name s = resource_name_format ''Model'' (now w 0)
           \<and> endpoint_name s = resource_name_format ''Endpoint'' (now w 1)
           \<and> resource_id s = ''endpoint/'' @ endpoint_name s @ ''/variant/AllTraffic''))
   \<and> (\<forall>r s. run_notebook w = Some (r, s) \<longrightarrow>
        (\<forall>xs c ys. calls_of (log s) = xs @ c # ys \<and> is_invoke c \<longrightarrow> list_ex is_deploy xs)
      \<and> (\<forall>xs c ys. calls_of (log s) = xs @ c # ys \<and> is_cleanup c \<longrightarrow>
              list_all (\<lambda>d. is_cleanup d \<and> \<not> is_invoke d \<and> \<not> is_create d) ys)
      \<and> (\<forall>xs e ys. calls_of (log s) = xs @ DeleteEndpoint e # ys \<longrightarrow>
              (\<exists>rid. DeregisterScalableTarget rid \<in> set xs)))
   \<and> (run_notebook w = None \<longrightarrow>
        (\<exists>s1. run_cells (setup_cells w) nb0 = Some (None, s1)
             \<and> run_cells (use_cells w) s1 = None))"
  using finished_run ordered_run never_ending_run by blast


lemma run_cells_finish:
  assumes "\<forall>c\<in>set cs. \<forall>s. \<exists>s'. c s = Some (None, s')"
  shows "\<exists>s'. run_cells cs s = Some (None, s')"
  using assms
proof (induction cs arbitrary: s)
  case Nil
  show ?case by simp
next
  case (Cons c cs)
  then obtain s1 where "c s = Some (None, s1)" by (meson list.set_intros(1))
  moreover from Cons obtain s2 where "run_cells cs s1 = Some (None, s2)"
    by (meson list.set_intros(2))
  ultimately show ?case by simp
qed

lemma demo_cell_output: "\<exists>s'. cell_output demo_env s = Some (None, s')"
proof -
  from demo_get_output obtain out t where
    "get_output demo_env (output_location s) s = Some (Inr out, t)"
    by blast
  then show ?thesis by (simp add: cell_output_def)
qed

lemma demo_notebook: "\<exists>s. run_notebook demo_env = Some (None, s)"
  unfolding run_notebook_def
proof (rule run_cells_finish, intro ballI allI)
  fix c s
  assume "c \<in> set (notebook demo_env)"
  then consider "c = lift cell_install" | "c = lift (cell_sessions demo_env)"
    | "c = lift cell_download" | "c = lift (cell_role_bucket demo_env)"
    | "c = lift (cell_upload_model demo_env)" | "c = lift (cell_container demo_env)"
    | "c = lift (cell_model demo_env)" | "c = lift (cell_deploy demo_env)"
    | "c = lift (cell_autoscaling demo_env)" | "c = lift (cell_upload_input demo_env)"
    | "c = lift (cell_predict demo_env)" | "c = cell_output demo_env"
    | "c = cell_multiple demo_env" | "c = lift (cell_deregister demo_env)"
    | "c = lift (cell_delete demo_env)"
    by (auto simp: notebook_def setup_cells_def use_cells_def cleanup_cells_def)
  then show "\<exists>s'. c s = Some (None, s')"
  proof cases
    case 12
    then show ?thesis by (simp add: demo_cell_output)
  next
    case 13
    then show ?thesis by (simp add: demo_cell_multiple)
  qed (simp_all add: lift_def cell_install_def cell_sessions_def cell_download_def
        cell_role_bucket_def cell_upload_model_def cell_container_def cell_model_def
        cell_deploy_def cell_autoscaling_def cell_upload_input_def upload_file_def
        cell_predict_def cell_deregister_def cell_delete_def cell_defs
        demo_env_def demo_respond_def)
qed

lemma demo_names:
  "resource_name_format ''Model'' (now demo_env 0) = ''AsyncInferenceDemo-Model-2023-05-22-21-52-50''"
  "resource_name_format ''Endpoint'' (now demo_env 1) = ''AsyncInferenceDemo-Endpoint-2023-05-22-21-52-51''"
  by (simp_all add: resource_name_format_def demo_env_def demo_now_def)

theorem workflow_order_witness:
  "\<exists>s pre use.
       run_notebook demo_env = Some (None, s)
     \<and> calls_of (log s) = pre @ use
         @ [DeregisterScalableTarget
              ''endpoint/AsyncInferenceDemo-Endpoint-2023-05-22-21-52-51/variant/AllTraffic'',
            DeleteEndpoint ''AsyncInferenceDemo-Endpoint-2023-05-22-21-52-51'']
     \<and> list_all in_setup pre
     \<and> filter is_deploy pre
         = [DeployEndpoint ''AsyncInferenceDemo-Model-2023-05-22-21-52-50''
              ''AsyncInferenceDemo-Endpoint-2023-05-22-21-52-51'']
     \<and> list_all in_use use
     \<and> length (filter is_invoke use) = 26"
proof -
  from demo_notebook obtain s where run: "run_notebook demo_env = Some (None, s)" by blast
  from conjunct1 [OF workflow_order [of demo_env], THEN spec, THEN mp, OF run]
  obtain pre use where
    "calls_of (log s) = pre @ use
         @ [DeregisterScalableTarget (resource_id s), DeleteEndpoint (endpoint_name s)]"
    "list_all in_setup pre"
    "filter is_deploy pre = [DeployEndpoint (model_name s) (endpoint_name s)]"
    "list_all in_use use"
    "length (filter is_invoke use) = 26"
    "model_name s = resource_name_format ''Model'' (now demo_env 0)"
    "endpoint_name s = resource_name_format ''Endpoint'' (now demo_env 1)"
    "resource_id s = ''endpoint/'' @ endpoint_name s @ ''/variant/AllTraffic''"
    by blast
  with run show ?thesis
    unfolding demo_names by (intro exI [of _ s] exI [of _ pre] exI [of _ use]) simp
qed

section \<open>Properties of the feature store notebook\<close>

subsection \<open>The SDK version guards\<close>



subsection \<open>Searching features\<close>

text \<open>
  The function makes one search call, whatever comes after it: on the resource
  \<open>FeatureMetadata\<close>, with the three \<open>Contains\<close> filters on \<open>FeatureName\<close>, \<open>Description\<close> and
  \<open>AllParameters\<close>, each with the search string, joined by \<open>Or\<close>.
\<close>

lemma search_features_request:
  "snd (search_features_using_string search json_normalize search_string) =
     [\<lparr>Resource = ''FeatureMetadata'',
       SearchExpression =
         \<lparr>Filters =
            [\<lparr>Name = ''FeatureName'', FilterOperator = ''Contains'', Value = search_string\<rparr>,
             \<lparr>Name = ''Description'', FilterOperator = ''Contains'', Value = search_string\<rparr>,
             \<lparr>Name = ''AllParameters'', FilterOperator = ''Contains'', Value = search_string\<rparr>],
          Operator = ''Or''\<rparr>\<rparr>]"
  by (simp add: search_features_using_string_def Let_def)

lemma drop_column_Inr:
  assumes "drop_column label df = Inr df'"
  shows "label \<in> fst ` set df" and "df' = filter (\<lambda>col. fst col \<noteq> label) df"
    and "label \<notin> fst ` set df'"
  using assms by (auto simp: drop_column_def split: if_splits)

text \<open>
  When the function returns a table, it is the normalised table of the results, relabelled,
  without its columns \<open>FeatureGroupArn\<close>, of which there was at least one.
\<close>

lemma search_features_table:
  assumes "search_features_using_string search json_normalize search_string = (Inr df, reqs)"
  shows "''FeatureGroupArn'' \<notin> fst ` set df
       \<and> (\<exists>request response results t t'.
             reqs = [request]
           \<and> search request = Inr response
           \<and> map_of response ''Results'' = Some results
           \<and> json_normalize results = Inr t
           \<and> map_columns second_part t = Inr t'
           \<and> ''FeatureGroupArn'' \<in> fst ` set t'
           \<and> df = filter (\<lambda>col. fst col \<noteq> ''FeatureGroupArn'') t')"
  using assms
  by (auto simp: search_features_using_string_def Let_def
      split: sum.splits option.splits dest: drop_column_Inr)

lemma search_married_table:
  "fst (search_features_using_string demo_search pandas_normalize ''married'') =
     Inr [(''FeatureGroupName'', [JStr ''customers'', JStr ''day'']),
          (''FeatureName'', [JStr ''is_married'', JStr ''marital_married'']),
          (''Parameters'', [JList [JDict [(''Key'', JStr ''org'')]], JNull]),
          (''Description'', [JNull, JStr ''one-hot''])]"
  by (simp add: search_features_using_string_def demo_search_def pandas_normalize_def
      frame_def flatten_record_def prefix_keys_def second_part_def drop_column_def)

lemma pandas_normalize_empty: "pandas_normalize (JList []) = Inr []"
  by (simp add: pandas_normalize_def)

text \<open>
  Claim C6. The claim is that for every search string the function makes that one search
  call and returns the table of the results without the column \<open>FeatureGroupArn\<close>. For a
  search string that matches no feature the service answers with an empty list of results;
  the table of an empty list has no column at all, so dropping \<open>FeatureGroupArn\<close> raises
  KeyError and no table is returned.
\<close>

theorem search_no_results_raises:
  "search_features_using_string demo_search pandas_normalize ''zzz''
     = (Inl (Exception ''KeyError''),
        [\<lparr>Resource = ''FeatureMetadata'',
          SearchExpression =
            \<lparr>Filters =
               [\<lparr>Name = ''FeatureName'', FilterOperator = ''Contains'', Value = ''zzz''\<rparr>,
                \<lparr>Name = ''Description'', FilterOperator = ''Contains'', Value = ''zzz''\<rparr>,
                \<lparr>Name = ''AllParameters'', FilterOperator = ''Contains'', Value = ''zzz''\<rparr>],
             Operator = ''Or''\<rparr>\<rparr>])"
  by (simp add: search_features_using_string_def demo_search_def pandas_normalize_empty
      drop_column_def)


section \<open>Properties of the batch transform notebook\<close>

subsection \<open>Writing the JSON Lines file\<close>

lemma replace_char_remove: "replace_char old [] s = filter (\<lambda>c. c \<noteq> old) s"
  by (induction s) (simp_all add: replace_char_def)

lemma replace_char_single:
  "replace_char old [new] s = map (\<lambda>c. if c = old then new else c) s"
  by (induction s) (simp_all add: replace_char_def)

lemma foldl_write_row:
  "foldl (write_row dump) p rows =
     p\<lparr>outfile := outfile p
           @ concat (map (\<lambda>row. dump [(''inputs'', filter (\<lambda>c. c \<noteq> CHR ''@'') row)] @ [newline]) rows),
       data_json := data_json p
           @ map (\<lambda>row. [(''inputs'', filter (\<lambda>c. c \<noteq> CHR ''@'') row)]) rows\<rparr>"
proof (induction rows arbitrary: p)
  case Nil
  show ?case by simp
next
  case (Cons row rows)
  show ?case
    by (simp add: Cons.IH) (simp add: write_row_def Let_def replace_char_remove)
qed

lemma file_lines_line:
  assumes "newline \<notin> set l"
  shows "file_lines (l @ newline # rest) = (l @ [newline]) # file_lines rest"
  using assms by (induction l) auto

lemma file_lines_concat:
  assumes "\<forall>l\<in>set ls. newline \<notin> set l"
  shows "file_lines (concat (map (\<lambda>l. l @ [newline]) ls)) = map (\<lambda>l. l @ [newline]) ls"
  using assms by (induction ls) (simp_all add: file_lines_line)

text \<open>
  Claim C4. For every list of tweets, \<open>data_json\<close> holds one object \<open>{"inputs": s}\<close> for each
  tweet, in order, with \<open>s\<close> the tweet without its \<open>@\<close> characters; the file holds the dumps of
  exactly these objects, in the same order, each followed by a newline; and as the dump of an
  object has no newline inside it, as is the case for \<open>json.dump\<close>, the lines of the file are
  these dumps, one line for each tweet.
\<close>

theorem jsonl_preprocessing:
  "data_json (preprocess dump tweet_text)
     = map (\<lambda>row. [(''inputs'', filter (\<lambda>c. c \<noteq> CHR ''@'') row)]) tweet_text
   \<and> outfile (preprocess dump tweet_text)
     = concat (map (\<lambda>obj. dump obj @ [newline]) (data_json (preprocess dump tweet_text)))
   \<and> ((\<forall>obj\<in>set (data_json (preprocess dump tweet_text)). newline \<notin> set (dump obj)) \<longrightarrow>
        file_lines (outfile (preprocess dump tweet_text))
          = map (\<lambda>obj. dump obj @ [newline]) (data_json (preprocess dump tweet_text))
      \<and> length (file_lines (outfile (preprocess dump tweet_text))) = length tweet_text)"
proof -
  let ?objs = "map (\<lambda>row. [(''inputs'', filter (\<lambda>c. c \<noteq> CHR ''@'') row)]) tweet_text"
  have d: "data_json (preprocess dump tweet_text) = ?objs"
    by (simp add: preprocess_def foldl_write_row)
  have o: "outfile (preprocess dump tweet_text) = concat (map (\<lambda>obj. dump obj @ [newline]) ?objs)"
    by (simp add: preprocess_def foldl_write_row comp_def)
  have l: "file_lines (outfile (preprocess dump tweet_text)) = map (\<lambda>obj. dump obj @ [newline]) ?objs"
    if "\<forall>obj\<in>set ?objs. newline \<notin> set (dump obj)"
  proof -
    from that have "\<forall>l\<in>set (map dump ?objs). newline \<notin> set l" by simp
    from file_lines_concat [OF this] show ?thesis
      unfolding o by (simp add: comp_def)
  qed
  show ?thesis
    unfolding d using o l by (simp add: d)
qed

lemma hex_digit_not_newline: "hex_digit d \<noteq> newline"
proof -
  have "hex_digit d \<in> set ''0123456789abcdef''"
    unfolding hex_digit_def by (rule nth_mem) simp
  then show ?thesis by (auto simp: newline_def)
qed

lemma json_escape_no_newline: "newline \<notin> set (json_escape c)"
  using hex_digit_not_newline [of "of_char c div 16"] hex_digit_not_newline [of "of_char c"]
  by (auto simp: json_escape_def newline_def)

lemma json_string_no_newline: "newline \<notin> set (json_string s)"
  using json_escape_no_newline by (auto simp: json_string_def newline_def)

lemma json_items_no_newline: "newline \<notin> set (json_items obj)"
proof (induction obj rule: json_items.induct)
  case 1
  show ?case by simp
next
  case (2 k v)
  show ?case using json_string_no_newline [of k] json_string_no_newline [of v]
    by (simp add: newline_def)
next
  case (3 k v a items)
  then show ?case using json_string_no_newline [of k] json_string_no_newline [of v]
    by (simp add: newline_def)
qed

lemma json_dumps_no_newline: "newline \<notin> set (json_dumps obj)"
  using json_items_no_newline [of obj] by (simp add: json_dumps_def newline_def)


lemma json_dumps_example:
  "json_dumps [(''inputs'', ''user hi'')] = ''{'' @ [CHR 0x22] @ ''inputs'' @ [CHR 0x22] @ '': ''
      @ [CHR 0x22] @ ''user hi'' @ [CHR 0x22] @ ''}''"
  by (simp add: json_dumps_def json_string_def json_escape_def)

lemma demo_objects:
  "map (\<lambda>row. [(''inputs'', filter (\<lambda>c. c \<noteq> CHR ''@'') row)]) demo_tweets
     = [[(''inputs'', ''user hi'')], [(''inputs'', ''ab'')]]"
  by (simp add: demo_tweets_def)

theorem jsonl_preprocessing_witness:
  "data_json (preprocess json_dumps demo_tweets)
     = [[(''inputs'', ''user hi'')], [(''inputs'', ''ab'')]]
   \<and> file_lines (outfile (preprocess json_dumps demo_tweets))
     = [json_dumps [(''inputs'', ''user hi'')] @ [newline], json_dumps [(''inputs'', ''ab'')] @ [newline]]
   \<and> length (file_lines (outfile (preprocess json_dumps demo_tweets))) = 2"
proof -
  note facts = jsonl_preprocessing [of json_dumps demo_tweets]
  from facts have d: "data_json (preprocess json_dumps demo_tweets)
     = [[(''inputs'', ''user hi'')], [(''inputs'', ''ab'')]]"
    unfolding demo_objects by (rule conjunct1)
  have "\<forall>obj\<in>set (data_json (preprocess json_dumps demo_tweets)).
          newline \<notin> set (json_dumps obj)"
    using json_dumps_no_newline by blast
  with facts have
    "file_lines (outfile (preprocess json_dumps demo_tweets))
          = map (\<lambda>obj. json_dumps obj @ [newline]) (data_json (preprocess json_dumps demo_tweets))
      \<and> length (file_lines (outfile (preprocess json_dumps demo_tweets))) = length demo_tweets"
    by blast
  then show ?thesis
    unfolding d by (simp add: demo_tweets_def)
qed

subsection \<open>Reading the results\<close>

lemma download_loop_snoc:
  "download_loop literal_eval v (ls @ [l]) =
     (case download_loop literal_eval v ls of
        Inl e \<Rightarrow> Inl e
      | Inr _ \<Rightarrow> literal_eval (bracket_line l))"
  by (induction ls arbitrary: v) (auto split: sum.splits)

lemma download_loop_all_parsed:
  assumes "\<forall>l\<in>set ls. \<exists>v. literal_eval (bracket_line l) = Inr v"
  shows "\<exists>r. download_loop literal_eval v ls = Inr r"
  using assms by (induction ls arbitrary: v) (auto split: sum.splits)

lemma bracket_line_eq:
  "bracket_line line =
     ''['' @ map (\<lambda>c. if c = CHR '']'' then CHR '','' else c) (filter (\<lambda>c. c \<noteq> CHR ''['') line) @ '']''"
  by (simp add: bracket_line_def replace_char_remove replace_char_single)

text \<open>
  Claim C3. After the loop over the lines of the output file, \<open>batch_transform_result\<close> is
  the value of the last line alone: when the loop has finished, its result is what
  \<open>literal_eval\<close> gives for the last line, and when the lines before the last can be read, the
  result of the loop is the result for the last line, whatever the values of the lines before
  it. Each line is read after deleting every \<open>[\<close> and turning every \<open>]\<close> into a comma, wherever
  in the line they stand, inside string contents too.
\<close>

theorem batch_result_is_last_line:
  "(read_results literal_eval initial file = Inr r \<and> file_lines file \<noteq> [] \<longrightarrow>
       literal_eval (bracket_line (last (file_lines file))) = Inr r)
   \<and> ((\<forall>l\<in>set (butlast (file_lines file)). \<exists>v. literal_eval (bracket_line l) = Inr v)
        \<and> file_lines file \<noteq> [] \<longrightarrow>
       read_results literal_eval initial file = literal_eval (bracket_line (last (file_lines file))))
   \<and> bracket_line line =
       ''['' @ map (\<lambda>c. if c = CHR '']'' then CHR '','' else c) (filter (\<lambda>c. c \<noteq> CHR ''['') line) @ '']''"
proof (intro conjI impI)
  assume a: "read_results literal_eval initial file = Inr r \<and> file_lines file \<noteq> []"
  then have "file_lines file \<noteq> []" by (rule conjunct2)
  then obtain ls l where split: "file_lines file = ls @ [l]"
    by (cases "file_lines file" rule: rev_cases) simp_all
  from a have "download_loop literal_eval initial (ls @ [l]) = Inr r"
    by (simp add: read_results_def split)
  then have "literal_eval (bracket_line l) = Inr r"
    unfolding download_loop_snoc by (simp split: sum.splits)
  then show "literal_eval (bracket_line (last (file_lines file))) = Inr r"
    by (simp add: split)
next
  assume a: "(\<forall>l\<in>set (butlast (file_lines file)). \<exists>v. literal_eval (bracket_line l) = Inr v)
        \<and> file_lines file \<noteq> []"
  then have "file_lines file \<noteq> []" by (rule conjunct2)
  then obtain ls l where split: "file_lines file = ls @ [l]"
    by (cases "file_lines file" rule: rev_cases) simp_all
  from a have "\<forall>l\<in>set ls. \<exists>v. literal_eval (bracket_line l) = Inr v"
    by (simp add: split)
  then have "\<exists>v. download_loop literal_eval initial ls = Inr v"
    by (rule download_loop_all_parsed)
  then obtain v where "download_loop literal_eval initial ls = Inr v" ..
  then have "download_loop literal_eval initial (ls @ [l]) = literal_eval (bracket_line l)"
    unfolding download_loop_snoc by simp
  then show "read_results literal_eval initial file = literal_eval (bracket_line (last (file_lines file)))"
    by (simp add: read_results_def split)
next
  show "bracket_line line =
       ''['' @ map (\<lambda>c. if c = CHR '']'' then CHR '','' else c) (filter (\<lambda>c. c \<noteq> CHR ''['') line) @ '']''"
    by (rule bracket_line_eq)
qed


lemma demo_output_lines:
  "file_lines demo_output_file = [''[{1: 2}]'' @ [newline], ''[{3: [4]}]'' @ [newline]]"
  by (simp add: demo_output_file_def newline_def)

theorem batch_result_is_last_line_witness:
  "read_results echo_eval [] demo_output_file = Inr (''[{3: 4,},'' @ [newline] @ '']'')"
proof -
  have pre: "(\<forall>l\<in>set (butlast (file_lines demo_output_file)). \<exists>v. echo_eval (bracket_line l) = Inr v)
        \<and> file_lines demo_output_file \<noteq> []"
    by (simp add: demo_output_lines echo_eval_def)
  note inst = batch_result_is_last_line [of echo_eval "[]" demo_output_file]
  from conjunct1 [OF conjunct2 [OF inst]] have "(\<forall>l\<in>set (butlast (file_lines demo_output_file)). \<exists>v. echo_eval (bracket_line l) = Inr v)
        \<and> file_lines demo_output_file \<noteq> [] \<longrightarrow>
       read_results echo_eval [] demo_output_file
         = echo_eval (bracket_line (last (file_lines demo_output_file)))"
    .
  then have "read_results echo_eval [] demo_output_file
      = echo_eval (bracket_line (last (file_lines demo_output_file)))"
    using pre by (rule mp)
  then show ?thesis
    unfolding demo_output_lines
    by (simp add: echo_eval_def bracket_line_def replace_char_def newline_def)
qed

section \<open>Properties of the inference pipeline notebook\<close>

subsection \<open>The featurizer script\<close>

lemma RuntimeException_undefined: "\<not> name_defined ''RuntimeException''"
  by (simp add: name_defined_def output_fn_locals_def script_globals_def builtin_names_def)

lemma RuntimeError_defined: "name_defined ''RuntimeError''"
  by (simp add: name_defined_def builtin_names_def)

text \<open>
  Claim C10. For every accept value other than \<open>application/json\<close> and \<open>text/csv\<close>,
  \<open>output_fn\<close> fails with NameError for the name \<open>RuntimeException\<close>, which is defined nowhere
  (the built-in exception is \<open>RuntimeError\<close>), and not with the exception the script means to
  raise. Only the two listed accept values give a response: the JSON document of the
  instances, and the encoded prediction when \<open>encoders.encode\<close> does not raise.
\<close>

theorem output_fn_unsupported_accept:
  "(accept \<noteq> ''application/json'' \<and> accept \<noteq> ''text/csv'' \<longrightarrow>
      output_fn tolist dumps encode prediction accept = Inl (NameError ''RuntimeException''))
   \<and> ((\<exists>r. output_fn tolist dumps encode prediction accept = Inr r) \<longrightarrow>
         accept = ''application/json'' \<or> accept = ''text/csv'')
   \<and> output_fn tolist dumps encode prediction ''application/json''
       = Inr \<lparr>response_body = dumps [(''instances'', map (\<lambda>row. [(''features'', row)]) (tolist prediction))],
              mimetype = ''application/json''\<rparr>
   \<and> output_fn tolist dumps encode prediction ''text/csv''
       = (case encode prediction ''text/csv'' of
            Inl e \<Rightarrow> Inl e
          | Inr encoded \<Rightarrow> Inr \<lparr>response_body = encoded, mimetype = ''text/csv''\<rparr>)"
proof (intro conjI impI)
  assume "accept \<noteq> ''application/json'' \<and> accept \<noteq> ''text/csv''"
  then show "output_fn tolist dumps encode prediction accept = Inl (NameError ''RuntimeException'')"
    by (simp add: output_fn_def RuntimeException_undefined)
next
  assume "\<exists>r. output_fn tolist dumps encode prediction accept = Inr r"
  then show "accept = ''application/json'' \<or> accept = ''text/csv''"
    by (auto simp: output_fn_def RuntimeException_undefined split: if_splits)
next
  show "output_fn tolist dumps encode prediction ''application/json''
       = Inr \<lparr>response_body = dumps [(''instances'', map (\<lambda>row. [(''features'', row)]) (tolist prediction))],
              mimetype = ''application/json''\<rparr>"
    by (simp add: output_fn_def Let_def)
next
  show "output_fn tolist dumps encode prediction ''text/csv''
       = (case encode prediction ''text/csv'' of
            Inl e \<Rightarrow> Inl e
          | Inr encoded \<Rightarrow> Inr \<lparr>response_body = encoded, mimetype = ''text/csv''\<rparr>)"
    by (simp add: output_fn_def)
qed

theorem output_fn_unsupported_accept_witness:
  "output_fn (\<lambda>p :: nat list list. p) (\<lambda>j. ''{}'') (\<lambda>p a. Inr []) [[1, 2]] ''text/plain''
     = Inl (NameError ''RuntimeException'')"
proof -
  have "''text/plain'' \<noteq> ''application/json'' \<and> ''text/plain'' \<noteq> ''text/csv''" by simp
  with conjunct1 [OF output_fn_unsupported_accept
      [of "''text/plain''" "\<lambda>p :: nat list list. p" "\<lambda>j. ''{}''" "\<lambda>p a. Inr []" "[[1, 2]]"]]
  show ?thesis by (rule mp)
qed

subsection \<open>Setting up the pipeline\<close>

text \<open>
  Claim C8. The cell constructs one PipelineModel and makes one \<open>deploy\<close> call, never more;
  when the cell finishes, the PipelineModel has exactly the two models, the model of the
  scikit-learn preprocessor first and the model of the linear learner second, and it is this
  PipelineModel that is deployed, behind the one endpoint \<open>inference-pipeline-ep-\<close> with the
  timestamp. The cell finishes exactly when both \<open>create_model\<close> calls and the \<open>deploy\<close> call
  return.
\<close>

theorem pipeline_has_two_models:
  "length (filter is_new_pipeline
             (snd (setup_pipeline create_model deploy timestamp_prefix role sklearn_preprocessor ll_estimator))) \<le> 1
   \<and> length (filter is_deploy_model
             (snd (setup_pipeline create_model deploy timestamp_prefix role sklearn_preprocessor ll_estimator))) \<le> 1
   \<and> (fst (setup_pipeline create_model deploy timestamp_prefix role sklearn_preprocessor ll_estimator) = None \<longrightarrow>
        (\<exists>m1 m2. create_model sklearn_preprocessor = Inr m1 \<and> create_model ll_estimator = Inr m2
           \<and> snd (setup_pipeline create_model deploy timestamp_prefix role sklearn_preprocessor ll_estimator)
              = [CreateModel sklearn_preprocessor, CreateModel ll_estimator,
                 NewPipelineModel \<lparr>pm_name = ''inference-pipeline-'' @ timestamp_prefix,
                                   pm_role = role, pm_models = [m1, m2]\<rparr>,
                 DeployModel \<lparr>pm_name = ''inference-pipeline-'' @ timestamp_prefix,
                              pm_role = role, pm_models = [m1, m2]\<rparr>
                             1 ''ml.c4.xlarge'' (''inference-pipeline-ep-'' @ timestamp_prefix)]))
   \<and> (fst (setup_pipeline create_model deploy timestamp_prefix role sklearn_preprocessor ll_estimator) = None)
       = (\<exists>m1 m2 u. create_model sklearn_preprocessor = Inr m1 \<and> create_model ll_estimator = Inr m2
            \<and> deploy \<lparr>pm_name = ''inference-pipeline-'' @ timestamp_prefix,
                         pm_role = role, pm_models = [m1, m2]\<rparr>
                        (''inference-pipeline-ep-'' @ timestamp_prefix) = Inr u)"
  by (auto simp: setup_pipeline_def Let_def split: sum.splits)

theorem pipeline_has_two_models_witness:
  "setup_pipeline demo_create_model demo_deploy ''2023-05-22-21-52-50'' ''role'' SKLearn LinearLearner
     = (None,
        [CreateModel SKLearn, CreateModel LinearLearner,
         NewPipelineModel \<lparr>pm_name = ''inference-pipeline-2023-05-22-21-52-50'', pm_role = ''role'',
                           pm_models = [''sagemaker-scikit-learn-model'', ''linear-learner-model'']\<rparr>,
         DeployModel \<lparr>pm_name = ''inference-pipeline-2023-05-22-21-52-50'', pm_role = ''role'',
                      pm_models = [''sagemaker-scikit-learn-model'', ''linear-learner-model'']\<rparr>
                     1 ''ml.c4.xlarge'' ''inference-pipeline-ep-2023-05-22-21-52-50''])"
proof -
  have fin: "fst (setup_pipeline demo_create_model demo_deploy ''2023-05-22-21-52-50'' ''role''
                SKLearn LinearLearner) = None"
    by (simp add: setup_pipeline_def demo_create_model_def demo_deploy_def Let_def)
  note inst = pipeline_has_two_models [of demo_create_model demo_deploy "''2023-05-22-21-52-50''"
      "''role''" SKLearn LinearLearner]
  from conjunct1 [OF conjunct2 [OF conjunct2 [OF inst]]] fin
  have "\<exists>m1 m2. demo_create_model SKLearn = Inr m1 \<and> demo_create_model LinearLearner = Inr m2
           \<and> snd (setup_pipeline demo_create_model demo_deploy ''2023-05-22-21-52-50'' ''role'' SKLearn LinearLearner)
              = [CreateModel SKLearn, CreateModel LinearLearner,
                 NewPipelineModel \<lparr>pm_name = ''inference-pipeline-'' @ ''2023-05-22-21-52-50'',
                                   pm_role = ''role'', pm_models = [m1, m2]\<rparr>,
                 DeployModel \<lparr>pm_name = ''inference-pipeline-'' @ ''2023-05-22-21-52-50'',
                              pm_role = ''role'', pm_models = [m1, m2]\<rparr>
                             1 ''ml.c4.xlarge'' (''inference-pipeline-ep-'' @ ''2023-05-22-21-52-50'')]"
    by (rule mp)
  then have "snd (setup_pipeline demo_create_model demo_deploy ''2023-05-22-21-52-50'' ''role'' SKLearn LinearLearner)
     = [CreateModel SKLearn, CreateModel LinearLearner,
         NewPipelineModel \<lparr>pm_name = ''inference-pipeline-2023-05-22-21-52-50'', pm_role = ''role'',
                           pm_models = [''sagemaker-scikit-learn-model'', ''linear-learner-model'']\<rparr>,
         DeployModel \<lparr>pm_name = ''inference-pipeline-2023-05-22-21-52-50'', pm_role = ''role'',
                      pm_models = [''sagemaker-scikit-learn-model'', ''linear-learner-model'']\<rparr>
                     1 ''ml.c4.xlarge'' ''inference-pipeline-ep-2023-05-22-21-52-50'']"
    by (auto simp: demo_create_model_def)
  with fin show ?thesis by (simp add: prod_eq_iff)
qed

end
